theory Spec2Isabelle
  imports Main "HOL-Library.AList"
begin

section \<open>Python values and errors\<close>

text \<open>
  The exceptions raised in \<^verbatim>\<open>odfdo/note.py\<close>, with their messages. \<open>AttributeError\<close> is
  what Python raises when a method is called on \<open>None\<close>.
\<close>

datatype error = ValueError string | TypeError string | AttributeError string

text \<open>A timestamp, as the text that the \<open>dc:date\<close> slot of an annotation holds.\<close>

type_synonym datetime = string

text \<open>Truthiness of a value that is a \<open>str\<close> or \<open>None\<close>: \<open>None\<close> and the empty string are falsy.\<close>

definition truthy :: "string option \<Rightarrow> bool" where
  "truthy v = (case v of None \<Rightarrow> False | Some s \<Rightarrow> s \<noteq> [])"

section \<open>Decimal text of the counter\<close>

text \<open>
  \<^verbatim>\<open>'%s' % i\<close> for the counter \<open>i\<close> of \<^verbatim>\<open>get_unique_office_name\<close>. The counter starts at
  1 and is only ever incremented, so it is a natural number; its text is its decimal
  representation without leading zeros.
\<close>

definition digit_char :: "nat \<Rightarrow> char" where
  "digit_char d = ''0123456789'' ! d"

function str_nat :: "nat \<Rightarrow> string" where
  "str_nat n = (if n < 10 then [digit_char n] else str_nat (n div 10) @ [digit_char (n mod 10)])"
  by pat_completeness auto
termination
  by (relation "measure id") auto

declare str_nat.simps [simp del]

section \<open>The identifier allocator\<close>

text \<open>The candidate name \<^verbatim>\<open>'__Fieldmark__lpod_%s' % i\<close>.\<close>

definition office_name_candidate :: "nat \<Rightarrow> string" where
  "office_name_candidate i = ''__Fieldmark__lpod_'' @ str_nat i"

lemma digit_char_inj: "a < 10 \<Longrightarrow> b < 10 \<Longrightarrow> digit_char a = digit_char b \<Longrightarrow> a = b"
proof -
  assume a: "a < 10" and b: "b < 10" and e: "digit_char a = digit_char b"
  have d: "distinct ''0123456789''" by simp
  have l: "length ''0123456789'' = 10" by simp
  from a b l e show "a = b"
    unfolding digit_char_def using d nth_eq_iff_index_eq by metis
qed

lemma str_nat_nonempty: "str_nat n \<noteq> []"
  by (subst str_nat.simps) simp

lemma str_nat_inj: "str_nat n = str_nat m \<Longrightarrow> n = m"
proof (induction n arbitrary: m rule: str_nat.induct)
  case (1 n)
  show ?case
  proof (cases "n < 10")
    case small_n: True
    show ?thesis
    proof (cases "m < 10")
      case True
      with small_n "1.prems" show ?thesis
        by (simp add: str_nat.simps [of n] str_nat.simps [of m] digit_char_inj)
    next
      case False
      with small_n "1.prems" str_nat_nonempty [of "m div 10"] show ?thesis
        by (simp add: str_nat.simps [of n] str_nat.simps [of m])
    qed
  next
    case big_n: False
    show ?thesis
    proof (cases "m < 10")
      case True
      with big_n "1.prems" str_nat_nonempty [of "n div 10"] show ?thesis
        by (simp add: str_nat.simps [of n] str_nat.simps [of m])
    next
      case False
      with big_n "1.prems" have eq: "str_nat (n div 10) = str_nat (m div 10)"
        and dg: "digit_char (n mod 10) = digit_char (m mod 10)"
        by (simp_all add: str_nat.simps [of n] str_nat.simps [of m])
      from "1.IH" [OF big_n eq] have q: "n div 10 = m div 10" .
      from dg have r: "n mod 10 = m mod 10"
        by (intro digit_char_inj) simp_all
      from q r show ?thesis
        by (metis div_mult_mod_eq)
    qed
  qed
qed

lemma office_name_candidate_inj: "office_name_candidate i = office_name_candidate j \<Longrightarrow> i = j"
  by (simp add: office_name_candidate_def str_nat_inj)

lemma finite_candidates_in: "finite {j. office_name_candidate j \<in> set used}"
proof -
  have "inj office_name_candidate"
    by (rule injI) (rule office_name_candidate_inj)
  then have "finite (office_name_candidate -` set used)"
    by (intro finite_vimageI) simp_all
  then show ?thesis by (simp add: vimage_def)
qed

text \<open>
  The loop of \<^verbatim>\<open>get_unique_office_name\<close>:
  \<^verbatim>\<open>
    while True:
        name = '__Fieldmark__lpod_%s' % i
        if name in used:
            i += 1
            continue
        break
    return name
  \<close>
  It ends because \<open>used\<close> is a finite list and distinct counters give distinct names.
\<close>

function first_unused :: "string list \<Rightarrow> nat \<Rightarrow> string" where
  "first_unused used i =
     (if office_name_candidate i \<in> set used then first_unused used (i + 1)
      else office_name_candidate i)"
  by pat_completeness auto
termination
proof (relation "measure (\<lambda>(used, i). card {j. i \<le> j \<and> office_name_candidate j \<in> set used})")
  show "wf (measure (\<lambda>(used, i). card {j. i \<le> j \<and> office_name_candidate j \<in> set used}))"
    by simp
next
  fix used :: "string list" and i :: nat
  assume mem: "office_name_candidate i \<in> set used"
  have fin: "finite {j. i \<le> j \<and> office_name_candidate j \<in> set used}"
    by (rule finite_subset [OF _ finite_candidates_in [of used]]) auto
  have sub: "{j. i + 1 \<le> j \<and> office_name_candidate j \<in> set used}
        \<subseteq> {j. i \<le> j \<and> office_name_candidate j \<in> set used}"
    by auto
  have inl: "i \<in> {j. i \<le> j \<and> office_name_candidate j \<in> set used}"
    using mem by simp
  have inr: "i \<notin> {j. i + 1 \<le> j \<and> office_name_candidate j \<in> set used}"
    by simp
  from sub inl inr
  have "{j. i + 1 \<le> j \<and> office_name_candidate j \<in> set used}
        \<subset> {j. i \<le> j \<and> office_name_candidate j \<in> set used}"
    by blast
  from psubset_card_mono [OF fin this]
  show "((used, i + 1), (used, i))
        \<in> measure (\<lambda>(used, i). card {j. i \<le> j \<and> office_name_candidate j \<in> set used})"
    by simp
qed

declare first_unused.simps [simp del]


section \<open>The element tree\<close>

text \<open>
  \<^verbatim>\<open>odfdo/element.py\<close> is not among the sources; the tree it provides is modelled from the
  specification's list of external interfaces. An element has the identity of its node
  (\<open>ident\<close>), a tag, named attribute slots, its own text and its children in document order.
  A forest holds every tree that is alive: a document and the elements that are detached
  from it, each detached element as the root of a tree of its own.
\<close>

datatype element =
  Element (ident: nat) (tag: string) (attrib: "(string \<times> string) list") (element_text: string)
    (children: "element list")

type_synonym forest = "element list"

text \<open>Modelled from the spec: the proper descendants of an element, in document order.\<close>

fun descendants :: "element \<Rightarrow> element list" where
  "descendants (Element i t a x cs) = concat (map (\<lambda>c. c # descendants c) cs)"

definition subtree :: "element \<Rightarrow> element list" where
  "subtree e = e # descendants e"

definition all_elements :: "forest \<Rightarrow> element list" where
  "all_elements f = concat (map subtree f)"

text \<open>
  Modelled from the spec: \<open>parent\<close> of \<^verbatim>\<open>element.py\<close> (ancestor navigation). The parent of
  the element with identity \<open>i\<close> is the element that has it among its children; a root has
  none.
\<close>

definition parent :: "forest \<Rightarrow> nat \<Rightarrow> element option" where
  "parent f i = find (\<lambda>p. i \<in> ident ` set (children p)) (all_elements f)"

text \<open>
  Modelled from the spec: \<open>root\<close> of \<^verbatim>\<open>element.py\<close>, the root of the tree that holds the
  element.
\<close>

definition root :: "forest \<Rightarrow> nat \<Rightarrow> element option" where
  "root f i = find (\<lambda>r. i \<in> ident ` set (subtree r)) f"

text \<open>
  Modelled from the spec: \<open>document_body\<close> of \<^verbatim>\<open>element.py\<close>, "the nearest ancestor that
  represents the whole document body if one exists"; it "may be absent if the node is
  detached". The element that represents the document body is the one tagged
  \<open>office:body\<close>. Ancestors are listed from the root down, so the nearest is the last.
\<close>

definition ancestors :: "forest \<Rightarrow> nat \<Rightarrow> element list" where
  "ancestors f i = filter (\<lambda>a. i \<in> ident ` set (descendants a)) (all_elements f)"

definition document_body :: "forest \<Rightarrow> nat \<Rightarrow> element option" where
  "document_body f i =
     (case filter (\<lambda>a. tag a = ''office:body'') (ancestors f i) of
        [] \<Rightarrow> None
      | b # bs \<Rightarrow> Some (last (b # bs)))"

text \<open>
  Modelled from the spec: attribute access of \<^verbatim>\<open>element.py\<close>. Reading an attribute that
  is not set gives \<open>None\<close>; assigning \<open>None\<close> removes the attribute.
\<close>

definition get_attribute :: "element \<Rightarrow> string \<Rightarrow> string option" where
  "get_attribute e k = map_of (attrib e) k"

definition set_attribute :: "element \<Rightarrow> string \<Rightarrow> string option \<Rightarrow> element" where
  "set_attribute e k v =
     Element (ident e) (tag e)
       (case v of None \<Rightarrow> AList.delete k (attrib e) | Some s \<Rightarrow> AList.update k s (attrib e))
       (element_text e) (children e)"

text \<open>
  The properties that \<^verbatim>\<open>_define_attribut_property\<close> creates from \<^verbatim>\<open>_properties\<close>:
  \<open>name\<close> is \<open>office:name\<close>, \<open>note_id\<close> is \<open>text:id\<close>, \<open>note_class\<close> is \<open>text:note-class\<close>.
\<close>

definition name :: "element \<Rightarrow> string option" where
  "name e = get_attribute e ''office:name''"

definition set_name :: "element \<Rightarrow> string option \<Rightarrow> element" where
  "set_name e v = set_attribute e ''office:name'' v"

text \<open>
  Modelled from the spec: \<open>get_office_names\<close> of \<^verbatim>\<open>element.py\<close>, "all names currently
  assigned to name-bearing constructs visible from that scope": the \<open>office:name\<close> of the
  element and of its descendants.
\<close>

definition get_office_names :: "element \<Rightarrow> string list" where
  "get_office_names e = List.map_filter name (subtree e)"

subsection \<open>\<^verbatim>\<open>get_unique_office_name\<close>\<close>

text \<open>
  \<^verbatim>\<open>
  def get_unique_office_name(element=None):
      if element is not None:
          body = element.document_body
      else:
          body = None
      if body:
          used = body.get_office_names()
      else:
          used = []
      if element is not None:
          used.extend(element.get_office_names())
      i = 1
      while True: ...
  \<close>
  An \<open>Element\<close> object is truthy, so \<^verbatim>\<open>if body\<close> tests that the body is not \<open>None\<close>.
\<close>

definition get_unique_office_name :: "forest \<Rightarrow> element option \<Rightarrow> string" where
  "get_unique_office_name f element =
     (let body = (case element of None \<Rightarrow> None | Some e \<Rightarrow> document_body f (ident e));
          used = (case body of Some b \<Rightarrow> get_office_names b | None \<Rightarrow> []);
          used = (case element of None \<Rightarrow> used | Some e \<Rightarrow> used @ get_office_names e)
      in first_unused used 1)"

text \<open>
  The two sets of the allocator's contract in the specification: the names in use in the
  governing document, and the names in use in the element passed by the caller.
\<close>

definition scope_used_names :: "forest \<Rightarrow> element option \<Rightarrow> string set" where
  "scope_used_names f element =
     (case element of
        None \<Rightarrow> {}
      | Some e \<Rightarrow> (case document_body f (ident e) of None \<Rightarrow> {} | Some b \<Rightarrow> set (get_office_names b)))"

definition local_used_names :: "element option \<Rightarrow> string set" where
  "local_used_names element = (case element of None \<Rightarrow> {} | Some e \<Rightarrow> set (get_office_names e))"

text \<open>
  The specification's words for the result: the counter \<open>k\<close> is the first one, counting from
  1, whose candidate name is not in the set \<open>U\<close>.
\<close>

definition spec_first_unused_index :: "string set \<Rightarrow> nat \<Rightarrow> bool" where
  "spec_first_unused_index U k \<longleftrightarrow>
     1 \<le> k \<and> office_name_candidate k \<notin> U \<and> (\<forall>j \<in> {1..<k}. office_name_candidate j \<in> U)"

text \<open>
  \<open>N\<close> calls of the allocator while nothing else changes: every call sees the same forest
  and the same element.
\<close>

definition allocations_unchanged :: "forest \<Rightarrow> element option \<Rightarrow> nat \<Rightarrow> string list" where
  "allocations_unchanged f element N = replicate N (get_unique_office_name f element)"

text \<open>
  \<open>N\<close> runs of the allocator's loop where each returned name is put in use before the next
  run, as happens when each new annotation is attached to the document.
\<close>

fun allocations_recorded :: "string list \<Rightarrow> nat \<Rightarrow> string list" where
  "allocations_recorded used 0 = []"
| "allocations_recorded used (Suc n) =
     (let name = first_unused used 1 in name # allocations_recorded (used @ [name]) n)"

subsection \<open>Lookup by name\<close>

text \<open>
  Modelled from the spec: \<open>get_annotation_end\<close> and \<open>get_annotation\<close> of \<^verbatim>\<open>element.py\<close>,
  the "scoped lookup by name": among the descendants of the scope, the first one in document
  order that has the tag of the wanted half and whose name equals the given name; \<open>None\<close>
  when there is none.
\<close>

definition get_annotation_end :: "element \<Rightarrow> string option \<Rightarrow> element option" where
  "get_annotation_end scope nm =
     find (\<lambda>e. tag e = ''office:annotation-end'' \<and> name e = nm) (descendants scope)"

definition get_annotation :: "element \<Rightarrow> string option \<Rightarrow> element option" where
  "get_annotation scope nm =
     find (\<lambda>e. tag e = ''office:annotation'' \<and> name e = nm) (descendants scope)"

subsection \<open>Removal from the tree\<close>

text \<open>
  Modelled from the spec: \<open>delete\<close> of \<^verbatim>\<open>element.py\<close> with no child given, the "ordinary
  tree removal" of the element itself: the element leaves the children of its parent and
  lives on as the root of a tree of its own. An element without a parent is the root of
  its tree and cannot be removed from it, which is an error.
\<close>

definition find_element :: "forest \<Rightarrow> nat \<Rightarrow> element option" where
  "find_element f i = find (\<lambda>e. ident e = i) (all_elements f)"

fun remove_child :: "nat \<Rightarrow> element \<Rightarrow> element" where
  "remove_child i (Element j t a x cs) =
     Element j t a x (map (remove_child i) (filter (\<lambda>c. ident c \<noteq> i) cs))"

definition detach :: "forest \<Rightarrow> nat \<Rightarrow> forest" where
  "detach f i =
     map (remove_child i) f @ (case find_element f i of None \<Rightarrow> [] | Some e \<Rightarrow> [e])"

definition Element_delete :: "forest \<Rightarrow> nat \<Rightarrow> error + forest" where
  "Element_delete f i =
     (case parent f i of
        None \<Rightarrow> Inl (ValueError ''cannot delete the root element'')
      | Some p \<Rightarrow> Inr (detach f i))"

text \<open>
  What a removal leaves as it was. \<open>same_but i p p'\<close>: the element \<open>p'\<close> is the element
  \<open>p\<close>, with the same identity, tag, attributes and text and the same children in the same
  order, but for the child with the identity \<open>i\<close>. \<open>unchanged_but f f' i\<close>: the forests \<open>f\<close>
  and \<open>f'\<close> have the same elements in this sense, so that they differ only in that the
  element \<open>i\<close> is no longer the child of its parent.
\<close>

definition same_but :: "nat \<Rightarrow> element \<Rightarrow> element \<Rightarrow> bool" where
  "same_but i p p' \<longleftrightarrow>
     ident p' = ident p \<and> tag p' = tag p \<and> attrib p' = attrib p
     \<and> element_text p' = element_text p
     \<and> map ident (children p') = filter (\<lambda>j. j \<noteq> i) (map ident (children p))"

definition unchanged_but :: "forest \<Rightarrow> forest \<Rightarrow> nat \<Rightarrow> bool" where
  "unchanged_but f f' i \<longleftrightarrow>
     (\<forall>p \<in> set (all_elements f). \<exists>p' \<in> set (all_elements f'). same_but i p p')
     \<and> (\<forall>p' \<in> set (all_elements f'). \<exists>p \<in> set (all_elements f). same_but i p p')"

text \<open>No element of the forest has its own identity among its descendants.\<close>

definition no_self_descendant :: "forest \<Rightarrow> bool" where
  "no_self_descendant f \<longleftrightarrow>
     (\<forall>y \<in> set (all_elements f). ident y \<notin> ident ` set (descendants y))"

section \<open>Annotations\<close>

subsection \<open>\<^verbatim>\<open>Annotation.end\<close> and \<^verbatim>\<open>AnnotationEnd.start\<close>\<close>

text \<open>
  \<^verbatim>\<open>
  def end(self):
      name = self.name
      parent = self.parent
      if parent is None:
          raise ValueError("Can not find end tag: no parent available.")
      body = self.document_body
      if not body:
          body = parent
      return body.get_annotation_end(name=name)
  \<close>
  The element \<open>self\<close> is read for its name; its place in the forest is found by its
  identity.
\<close>

definition Annotation_end :: "forest \<Rightarrow> element \<Rightarrow> error + element option" where
  "Annotation_end f self =
     (let nm = name self in
      case parent f (ident self) of
        None \<Rightarrow> Inl (ValueError ''Can not find end tag: no parent available.'')
      | Some p \<Rightarrow>
          (let body = (case document_body f (ident self) of None \<Rightarrow> p | Some b \<Rightarrow> b)
           in Inr (get_annotation_end body nm)))"

definition AnnotationEnd_start :: "forest \<Rightarrow> element \<Rightarrow> error + element option" where
  "AnnotationEnd_start f self =
     (let nm = name self in
      case parent f (ident self) of
        None \<Rightarrow> Inl (ValueError ''Can not find start tag: no parent available.'')
      | Some p \<Rightarrow>
          (let body = (case document_body f (ident self) of None \<Rightarrow> p | Some b \<Rightarrow> b)
           in Inr (get_annotation body nm)))"

subsection \<open>\<^verbatim>\<open>Annotation.get_annotated\<close>\<close>

text \<open>
  What \<^verbatim>\<open>get_annotated\<close> returns: a text, a list of elements, or \<open>None\<close>.
\<close>

datatype annotated = AsText string | AsElements "element list" | Absent

text \<open>
  \<^verbatim>\<open>
  def get_annotated(self, as_text=False, no_header=True, clean=True):
      end = self.end
      if end is None:
          if as_text:
              return ''
          return None
      body = self.document_body
      if not body:
          body = self.root
      return body.get_between(
          self, end, as_text=as_text, no_header=no_header, clean=clean)
  \<close>
  \<open>get_between\<close> of \<^verbatim>\<open>element.py\<close> is a parameter: the extraction between two elements
  is the collaborator's work.
\<close>

definition Annotation_get_annotated ::
  "(element \<Rightarrow> element \<Rightarrow> element \<Rightarrow> bool \<Rightarrow> bool \<Rightarrow> bool \<Rightarrow> error + annotated)
   \<Rightarrow> forest \<Rightarrow> element \<Rightarrow> bool \<Rightarrow> bool \<Rightarrow> bool \<Rightarrow> error + annotated" where
  "Annotation_get_annotated get_between f self as_text no_header clean =
     (case Annotation_end f self of
        Inl err \<Rightarrow> Inl err
      | Inr None \<Rightarrow> if as_text then Inr (AsText []) else Inr Absent
      | Inr (Some end_tag) \<Rightarrow>
          (case (case document_body f (ident self) of
                   Some b \<Rightarrow> Some b
                 | None \<Rightarrow> root f (ident self)) of
             None \<Rightarrow> Inl (AttributeError ''get_between'')
           | Some body \<Rightarrow> get_between body self end_tag as_text no_header clean))"

subsection \<open>\<^verbatim>\<open>Annotation.delete\<close>\<close>

text \<open>
  \<^verbatim>\<open>
  def delete(self, child=None):
      if child is not None:  # act like normal delete
          return super(Annotation, self).delete(child)
      end = self.end
      if end:
          end.delete()
      # act like normal delete
      return super(Annotation, self).delete()
  \<close>
  \<open>AnnotationEnd\<close> does not override \<open>delete\<close>, so \<^verbatim>\<open>end.delete()\<close> is the removal of
  \<^verbatim>\<open>element.py\<close>. Deleting a given child is the same removal applied to the child.
\<close>

definition Annotation_delete :: "forest \<Rightarrow> element \<Rightarrow> element option \<Rightarrow> error + forest" where
  "Annotation_delete f self child =
     (case child of
        Some c \<Rightarrow> Element_delete f (ident c)
      | None \<Rightarrow>
          (case Annotation_end f self of
             Inl err \<Rightarrow> Inl err
           | Inr end_tag \<Rightarrow>
               (case (case end_tag of
                        Some e \<Rightarrow> Element_delete f (ident e)
                      | None \<Rightarrow> Inr f) of
                  Inl err \<Rightarrow> Inl err
                | Inr f' \<Rightarrow> Element_delete f' (ident self))))"

subsection \<open>\<^verbatim>\<open>AnnotationEnd.__init__\<close>\<close>

text \<open>
  \<^verbatim>\<open>
  def __init__(self, annotation=None, name=None, **kwargs):
      super().__init__(**kwargs)
      if self._do_init:
          if annotation:
              name = annotation.name
          if not name:
              raise ValueError("Annotation-end must have a name")
          self.name = name
  \<close>
  A new object gets a node of its own, with the identity \<open>fresh\<close>, the class's tag and
  nothing else; \<^verbatim>\<open>_do_init\<close> is true for it.
\<close>

definition AnnotationEnd_init :: "nat \<Rightarrow> element option \<Rightarrow> string option \<Rightarrow> error + element" where
  "AnnotationEnd_init fresh annotation nm =
     (let self = Element fresh ''office:annotation-end'' [] [] [];
          nm = (case annotation of Some a \<Rightarrow> name a | None \<Rightarrow> nm)
      in if \<not> truthy nm then Inl (ValueError ''Annotation-end must have a name'')
         else Inr (set_name self nm))"

section \<open>Content of an element\<close>

text \<open>
  A value passed where the code expects "text or element": a \<open>str\<close>, a \<open>bytes\<close>, an
  \<open>Element\<close>, or something else (\<open>None\<close>, a number).
\<close>

datatype py_value = PyStr string | PyBytes string | PyElement element | PyNone | PyInt int

text \<open>
  Modelled from the spec: \<open>get_element\<close> of \<^verbatim>\<open>element.py\<close>, the "single-child lookup by
  tag within a node".
\<close>

definition get_element :: "element \<Rightarrow> string \<Rightarrow> element option" where
  "get_element e t = find (\<lambda>c. tag c = t) (children e)"

text \<open>
  Modelled from the spec: the \<open>text\<close> and \<open>text_content\<close> properties of \<^verbatim>\<open>element.py\<close>,
  the "scalar text access". Reading \<open>text_content\<close> "returns the full extracted text
  content" of the element; writing it is "replacing all body sub-region content" by the
  text.
\<close>

definition set_text :: "element \<Rightarrow> string \<Rightarrow> element" where
  "set_text e s = Element (ident e) (tag e) (attrib e) s (children e)"

fun text_content :: "element \<Rightarrow> string" where
  "text_content (Element i t a x cs) = x @ concat (map text_content cs)"

definition set_text_content :: "element \<Rightarrow> string \<Rightarrow> element" where
  "set_text_content e s = Element (ident e) (tag e) (attrib e) s []"

text \<open>
  Modelled from the spec: \<open>clear\<close>, \<open>append\<close> and \<open>insert\<close> of \<^verbatim>\<open>element.py\<close>, the
  "structural mutation" of a node: \<open>clear\<close> empties the content of the element, \<open>append\<close>
  adds a last child, \<open>insert\<close> adds a child at a position.
\<close>

definition clear :: "element \<Rightarrow> element" where
  "clear e = Element (ident e) (tag e) (attrib e) [] []"

definition append_element :: "element \<Rightarrow> element \<Rightarrow> element" where
  "append_element e c = Element (ident e) (tag e) (attrib e) (element_text e) (children e @ [c])"

definition insert_element :: "element \<Rightarrow> element \<Rightarrow> nat \<Rightarrow> element" where
  "insert_element e c position =
     Element (ident e) (tag e) (attrib e) (element_text e)
       (take position (children e) @ c # drop position (children e))"

text \<open>
  A sub-element returned by \<open>get_element\<close> is mutated in place by the code. In the model
  the element gets the changed sub-element where the old one was: the first child with the
  tag.
\<close>

fun update_first :: "('a \<Rightarrow> bool) \<Rightarrow> ('a \<Rightarrow> 'a) \<Rightarrow> 'a list \<Rightarrow> 'a list" where
  "update_first P g [] = []"
| "update_first P g (x # xs) = (if P x then g x # xs else x # update_first P g xs)"

definition update_element :: "element \<Rightarrow> string \<Rightarrow> (element \<Rightarrow> element) \<Rightarrow> element" where
  "update_element e t g =
     Element (ident e) (tag e) (attrib e) (element_text e)
       (update_first (\<lambda>c. tag c = t) g (children e))"

section \<open>Notes\<close>

text \<open>
  \<^verbatim>\<open>_properties = (('note_class', 'text:note-class'), ('note_id', 'text:id'))\<close>
\<close>

definition note_class :: "element \<Rightarrow> string option" where
  "note_class e = get_attribute e ''text:note-class''"

definition set_note_class :: "element \<Rightarrow> string option \<Rightarrow> element" where
  "set_note_class e v = set_attribute e ''text:note-class'' v"

definition note_id :: "element \<Rightarrow> string option" where
  "note_id e = get_attribute e ''text:id''"

definition set_note_id :: "element \<Rightarrow> string option \<Rightarrow> element" where
  "set_note_id e v = set_attribute e ''text:id'' v"

text \<open>
  \<^verbatim>\<open>
  def citation(self):
      note_citation = self.get_element('text:note-citation')
      return note_citation.text
  def citation(self, text):
      note_citation = self.get_element('text:note-citation')
      note_citation.text = text
  \<close>
  Reading or writing an attribute of \<open>None\<close> is an \<open>AttributeError\<close>.
\<close>

definition Note_citation :: "element \<Rightarrow> error + string" where
  "Note_citation self =
     (case get_element self ''text:note-citation'' of
        None \<Rightarrow> Inl (AttributeError ''text'')
      | Some note_citation \<Rightarrow> Inr (element_text note_citation))"

definition Note_set_citation :: "element \<Rightarrow> string \<Rightarrow> error + element" where
  "Note_set_citation self s =
     (case get_element self ''text:note-citation'' of
        None \<Rightarrow> Inl (AttributeError ''text'')
      | Some note_citation \<Rightarrow>
          Inr (update_element self ''text:note-citation'' (\<lambda>c. set_text c s)))"

text \<open>
  \<^verbatim>\<open>
  def note_body(self):
      note_body = self.get_element('text:note-body')
      return note_body.text_content
  def note_body(self, text_or_element):
      note_body = self.get_element('text:note-body')
      if isinstance(text_or_element, (str, bytes)):
          note_body.text_content = text_or_element
      elif isinstance(text_or_element, Element):
          note_body.clear()
          note_body.append(text_or_element)
      else:
          raise ValueError(
              'Unexpected type for body: "%s"' % type(text_or_element))
  \<close>
  The message of the last error names the type of the value; the model keeps its fixed
  part.
\<close>

definition Note_note_body :: "element \<Rightarrow> error + string" where
  "Note_note_body self =
     (case get_element self ''text:note-body'' of
        None \<Rightarrow> Inl (AttributeError ''text_content'')
      | Some note_body \<Rightarrow> Inr (text_content note_body))"

definition Note_set_note_body :: "element \<Rightarrow> py_value \<Rightarrow> error + element" where
  "Note_set_note_body self text_or_element =
     (let note_body = get_element self ''text:note-body'' in
      case text_or_element of
        PyStr s \<Rightarrow>
          (case note_body of
             None \<Rightarrow> Inl (AttributeError ''text_content'')
           | Some b \<Rightarrow> Inr (update_element self ''text:note-body'' (\<lambda>c. set_text_content c s)))
      | PyBytes s \<Rightarrow>
          (case note_body of
             None \<Rightarrow> Inl (AttributeError ''text_content'')
           | Some b \<Rightarrow> Inr (update_element self ''text:note-body'' (\<lambda>c. set_text_content c s)))
      | PyElement el \<Rightarrow>
          (case note_body of
             None \<Rightarrow> Inl (AttributeError ''clear'')
           | Some b \<Rightarrow>
               Inr (update_element self ''text:note-body'' (\<lambda>c. append_element (clear c) el)))
      | PyNone \<Rightarrow> Inl (ValueError ''Unexpected type for body'')
      | PyInt n \<Rightarrow> Inl (ValueError ''Unexpected type for body''))"

text \<open>
  \<^verbatim>\<open>
  def __init__(self, note_class='footnote', note_id=None, citation=None, body=None,
               **kwargs):
      super().__init__(**kwargs)
      if self._do_init:
          self.insert(Element.from_tag('text:note-body'), position=0)
          self.insert(Element.from_tag('text:note-citation'), position=0)
          self.note_class = note_class
          if note_id is not None:
              self.note_id = note_id
          if citation is not None:
              self.citation = citation
          if body is not None:
              self.note_body = body
  \<close>
  A new note gets the node identity \<open>fresh\<close>, and its two sub-elements the next two.
\<close>

definition Note_init ::
  "nat \<Rightarrow> string option \<Rightarrow> string option \<Rightarrow> string option \<Rightarrow> py_value \<Rightarrow> error + element" where
  "Note_init fresh note_class_arg note_id_arg citation_arg body =
     (let self = Element fresh ''text:note'' [] [] [];
          self = insert_element self (Element (fresh + 1) ''text:note-body'' [] [] []) 0;
          self = insert_element self (Element (fresh + 2) ''text:note-citation'' [] [] []) 0;
          self = set_note_class self note_class_arg;
          self = (if note_id_arg \<noteq> None then set_note_id self note_id_arg else self)
      in case (case citation_arg of None \<Rightarrow> Inr self | Some c \<Rightarrow> Note_set_citation self c) of
           Inl err \<Rightarrow> Inl err
         | Inr self \<Rightarrow> if body \<noteq> PyNone then Note_set_note_body self body else Inr self)"

text \<open>
  \<^verbatim>\<open>
  def check_validity(self):
      if not self.note_class:
          raise ValueError('note class must be "footnote" or "endnote"')
      if not self.note_id:
          raise ValueError("notes must have an id")
      if not self.citation:
          raise ValueError("notes must have a citation")
      if not self.note_body:
          pass
  \<close>
\<close>

definition quoted :: "string \<Rightarrow> string" where
  "quoted s = CHR 0x22 # s @ [CHR 0x22]"

definition Note_check_validity :: "element \<Rightarrow> error + unit" where
  "Note_check_validity self =
     (if \<not> truthy (note_class self) then
        Inl (ValueError (''note class must be '' @ quoted ''footnote'' @ '' or '' @ quoted ''endnote''))
      else if \<not> truthy (note_id self) then Inl (ValueError ''notes must have an id'')
      else
        (case Note_citation self of
           Inl err \<Rightarrow> Inl err
         | Inr c \<Rightarrow>
             if c = [] then Inl (ValueError ''notes must have a citation'')
             else (case Note_note_body self of Inl err \<Rightarrow> Inl err | Inr b \<Rightarrow> Inr ())))"

section \<open>Construction and validity of annotations\<close>

text \<open>
  Modelled from the spec: \<open>dc_creator\<close> and \<open>dc_date\<close> of \<^verbatim>\<open>element.py\<close>. The
  specification lists creator and date with the name among the attributes of an annotation;
  each is a slot that is \<open>None\<close> until it is set.
\<close>

definition dc_creator :: "element \<Rightarrow> string option" where
  "dc_creator e = get_attribute e ''dc:creator''"

definition set_dc_creator :: "element \<Rightarrow> string option \<Rightarrow> element" where
  "set_dc_creator e v = set_attribute e ''dc:creator'' v"

definition dc_date :: "element \<Rightarrow> datetime option" where
  "dc_date e = get_attribute e ''dc:date''"

definition set_dc_date :: "element \<Rightarrow> datetime \<Rightarrow> element" where
  "set_dc_date e d = set_attribute e ''dc:date'' (Some d)"

text \<open>
  \<^verbatim>\<open>
  def note_body(self):
      return self.text_content
  def note_body(self, text_or_element):
      if isinstance(text_or_element, (str, bytes)):
          self.text_content = text_or_element
      elif isinstance(text_or_element, Element):
          self.clear()
          self.append(text_or_element)
      else:
          raise TypeError('expected unicode or Element')
  \<close>
\<close>

definition Annotation_note_body :: "element \<Rightarrow> string" where
  "Annotation_note_body self = text_content self"

definition Annotation_set_note_body :: "element \<Rightarrow> py_value \<Rightarrow> error + element" where
  "Annotation_set_note_body self text_or_element =
     (case text_or_element of
        PyStr s \<Rightarrow> Inr (set_text_content self s)
      | PyBytes s \<Rightarrow> Inr (set_text_content self s)
      | PyElement el \<Rightarrow> Inr (append_element (clear self) el)
      | PyNone \<Rightarrow> Inl (TypeError ''expected unicode or Element'')
      | PyInt n \<Rightarrow> Inl (TypeError ''expected unicode or Element''))"

text \<open>
  \<^verbatim>\<open>
  def __init__(self, text_or_element=None, creator=None, date=None, name=None,
               parent=None, **kwargs):
      super().__init__(**kwargs)
      if self._do_init:
          self.note_body = text_or_element
          if creator:
              self.dc_creator = creator
          if date is None:
              date = datetime.now()
          self.dc_date = date
          if not name:
              name = get_unique_office_name(parent)
              self.name = name
  \<close>
  A new annotation gets a node with the identity \<open>fresh\<close>, the class's tag and nothing
  else. \<open>now\<close> is what \<^verbatim>\<open>datetime.now()\<close> returns. The forest is where \<open>parent\<close> lives.
\<close>

definition Annotation_init ::
  "forest \<Rightarrow> nat \<Rightarrow> datetime \<Rightarrow> py_value \<Rightarrow> string option \<Rightarrow> datetime option \<Rightarrow> string option
   \<Rightarrow> element option \<Rightarrow> error + element" where
  "Annotation_init f fresh now text_or_element creator date name_arg parent_arg =
     (let self = Element fresh ''office:annotation'' [] [] [] in
      case Annotation_set_note_body self text_or_element of
        Inl err \<Rightarrow> Inl err
      | Inr self \<Rightarrow>
          (let self = (if truthy creator then set_dc_creator self creator else self);
               date = (case date of None \<Rightarrow> now | Some d \<Rightarrow> d);
               self = set_dc_date self date
           in if \<not> truthy name_arg then
                (let name_arg = get_unique_office_name f parent_arg
                 in Inr (set_name self (Some name_arg)))
              else Inr self))"

text \<open>
  \<^verbatim>\<open>
  def check_validity(self):
      if not self.note_body:
          raise ValueError("annotation must have a body")
      if not self.dc_creator:
          raise ValueError("annotation must have a creator")
      if not self.dc_date:
          self.dc_date = datetime.now()
  \<close>
  The method returns nothing; the model returns the annotation as the method leaves it. A
  date that is set is an object, which is truthy.
\<close>

definition Annotation_check_validity :: "datetime \<Rightarrow> element \<Rightarrow> error + element" where
  "Annotation_check_validity now self =
     (if Annotation_note_body self = [] then Inl (ValueError ''annotation must have a body'')
      else if \<not> truthy (dc_creator self) then
        Inl (ValueError ''annotation must have a creator'')
      else if dc_date self = None then Inr (set_dc_date self now)
      else Inr self)"

subsection \<open>A small document\<close>

text \<open>
  A document whose body holds one paragraph, with one annotation in it that carries the
  first autogenerated name.
\<close>

definition example_annotation :: element where
  "example_annotation =
     Element 3 ''office:annotation'' [(''office:name'', ''__Fieldmark__lpod_1'')] [] []"

definition example_paragraph :: element where
  "example_paragraph = Element 2 ''text:p'' [] ''some text'' [example_annotation]"

definition example_document :: forest where
  "example_document =
     [Element 0 ''office:document-content'' [] []
        [Element 1 ''office:body'' [] [] [example_paragraph]]]"

text \<open>
  A paragraph that is not part of any document. It holds an annotation and no
  annotation-end.
\<close>

definition lone_annotation :: element where
  "lone_annotation =
     Element 11 ''office:annotation'' [(''office:name'', ''__Fieldmark__lpod_1'')] ''note'' []"

definition detached_paragraph_element :: element where
  "detached_paragraph_element =
     Element 10 ''text:p'' [] ''before''
       [lone_annotation, Element 12 ''text:span'' [] ''after'' []]"

definition detached_paragraph :: forest where
  "detached_paragraph = [detached_paragraph_element]"

text \<open>
  Two annotations that were each constructed without a name and without a parent, so that
  both carry the first autogenerated name, and the annotation-end made from each.
\<close>

definition first_start :: element where
  "first_start =
     Element 21 ''office:annotation''
       [(''dc:creator'', ''Alice''), (''dc:date'', ''2018-01-01T00:00:00''),
        (''office:name'', ''__Fieldmark__lpod_1'')] ''review me'' []"

definition first_end :: element where
  "first_end =
     Element 22 ''office:annotation-end'' [(''office:name'', ''__Fieldmark__lpod_1'')] [] []"

definition second_start :: element where
  "second_start =
     Element 23 ''office:annotation''
       [(''dc:creator'', ''Bob''), (''dc:date'', ''2018-01-02T00:00:00''),
        (''office:name'', ''__Fieldmark__lpod_1'')] ''and me'' []"

definition second_end :: element where
  "second_end =
     Element 24 ''office:annotation-end'' [(''office:name'', ''__Fieldmark__lpod_1'')] [] []"

text \<open>A paragraph with the first pair, and a paragraph with both pairs.\<close>

definition paired_paragraph_element :: element where
  "paired_paragraph_element =
     Element 20 ''text:p'' [] []
       [first_start, Element 25 ''text:span'' [] ''annotated'' [], first_end]"

definition paired_paragraph :: forest where
  "paired_paragraph = [paired_paragraph_element]"

definition clashing_paragraph_element :: element where
  "clashing_paragraph_element =
     Element 20 ''text:p'' [] [] [first_start, first_end, second_start, second_end]"

definition clashing_paragraph :: forest where
  "clashing_paragraph = [clashing_paragraph_element]"

text \<open>
  A paragraph with the first annotation alone, followed by the second pair: the end of the
  second pair is the first annotation-end of the name, its start is not the first annotation
  of the name.
\<close>

definition overlapping_paragraph_element :: element where
  "overlapping_paragraph_element =
     Element 20 ''text:p'' [] [] [first_start, second_start, second_end]"

definition overlapping_paragraph :: forest where
  "overlapping_paragraph = [overlapping_paragraph_element]"

text \<open>A footnote as the constructor builds it, with an unrecognised class and with a known one.\<close>

definition bogus_note :: element where
  "bogus_note =
     Element 1 ''text:note'' [(''text:note-class'', ''bogus''), (''text:id'', ''n1'')] []
       [Element 3 ''text:note-citation'' [] ''1'' [], Element 2 ''text:note-body'' [] [] []]"

definition footnote_n1 :: element where
  "footnote_n1 =
     Element 1 ''text:note'' [(''text:note-class'', ''footnote''), (''text:id'', ''n1'')] []
       [Element 3 ''text:note-citation'' [] ''1'' [], Element 2 ''text:note-body'' [] [] []]"

section \<open>Properties of the allocator\<close>

lemma first_unused_not_used: "first_unused used i \<notin> set used"
proof (induction used i rule: first_unused.induct)
  case (1 used i)
  then show ?case
    by (subst first_unused.simps) simp
qed

lemma first_unused_candidate:
  "\<exists>k\<ge>i. first_unused used i = office_name_candidate k
        \<and> (\<forall>j. i \<le> j \<and> j < k \<longrightarrow> office_name_candidate j \<in> set used)"
proof (induction used i rule: first_unused.induct)
  case (1 used i)
  show ?case
  proof (cases "office_name_candidate i \<in> set used")
    case True
    from "1.IH" [OF True] obtain k where k: "i + 1 \<le> k"
      "first_unused used (i + 1) = office_name_candidate k"
      "\<forall>j. i + 1 \<le> j \<and> j < k \<longrightarrow> office_name_candidate j \<in> set used"
      by blast
    have "\<forall>j. i \<le> j \<and> j < k \<longrightarrow> office_name_candidate j \<in> set used"
    proof (intro allI impI)
      fix j assume j: "i \<le> j \<and> j < k"
      show "office_name_candidate j \<in> set used"
      proof (cases "j = i")
        case True with \<open>office_name_candidate i \<in> set used\<close> show ?thesis by simp
      next
        case False with j k(3) show ?thesis by simp
      qed
    qed
    moreover have "first_unused used i = office_name_candidate k"
      using True k(2) by (subst first_unused.simps) simp
    moreover have "i \<le> k" using k(1) by simp
    ultimately show ?thesis by blast
  next
    case False
    then have "first_unused used i = office_name_candidate i"
      by (subst first_unused.simps) simp
    then show ?thesis by auto
  qed
qed

lemma first_unused_spec:
  assumes "spec_first_unused_index (set used) k"
  shows "first_unused used 1 = office_name_candidate k"
proof -
  from first_unused_candidate [of 1 used] obtain k' where k': "1 \<le> k'"
    "first_unused used 1 = office_name_candidate k'"
    "\<forall>j. 1 \<le> j \<and> j < k' \<longrightarrow> office_name_candidate j \<in> set used"
    by blast
  have free': "office_name_candidate k' \<notin> set used"
    using first_unused_not_used [of used 1] k'(2) by simp
  from assms have k: "1 \<le> k" "office_name_candidate k \<notin> set used"
    "\<forall>j. 1 \<le> j \<and> j < k \<longrightarrow> office_name_candidate j \<in> set used"
    by (auto simp: spec_first_unused_index_def)
  have "\<not> k < k'" using k(1,2) k'(3) by blast
  moreover have "\<not> k' < k" using k'(1) free' k(3) by blast
  ultimately have "k = k'" by simp
  with k'(2) show ?thesis by simp
qed

lemma spec_first_unused_index_exists: "\<exists>k. spec_first_unused_index (set used) k"
proof -
  from first_unused_candidate [of 1 used] obtain k where k: "1 \<le> k"
    "first_unused used 1 = office_name_candidate k"
    "\<forall>j. 1 \<le> j \<and> j < k \<longrightarrow> office_name_candidate j \<in> set used"
    by blast
  have "office_name_candidate k \<notin> set used"
    using first_unused_not_used [of used 1] k(2) by simp
  with k(1,3) have "spec_first_unused_index (set used) k"
    by (simp add: spec_first_unused_index_def)
  then show ?thesis ..
qed

lemma get_unique_office_name_used:
  "\<exists>used. get_unique_office_name f element = first_unused used 1
         \<and> set used = scope_used_names f element \<union> local_used_names element"
  by (cases element)
     (auto simp: get_unique_office_name_def scope_used_names_def local_used_names_def Let_def
           split: option.splits)

lemma allocations_recorded_fresh:
  "distinct (allocations_recorded used n) \<and> set (allocations_recorded used n) \<inter> set used = {}"
proof (induction n arbitrary: used)
  case 0
  show ?case by simp
next
  case (Suc n)
  let ?name = "first_unused used 1"
  from Suc.IH [of "used @ [?name]"]
  have d: "distinct (allocations_recorded (used @ [?name]) n)"
    and s: "set (allocations_recorded (used @ [?name]) n) \<inter> set (used @ [?name]) = {}"
    by simp_all
  from s have "?name \<notin> set (allocations_recorded (used @ [?name]) n)"
    and "set (allocations_recorded (used @ [?name]) n) \<inter> set used = {}"
    by auto
  with d first_unused_not_used [of used 1] show ?case
    by (simp add: Let_def)
qed

lemma candidate_1: "office_name_candidate (Suc 0) = ''__Fieldmark__lpod_1''"
  by (simp add: office_name_candidate_def str_nat.simps digit_char_def)

lemma ball_from_1_below_2: "(\<forall>j \<in> {Suc 0..<2}. P j) \<longleftrightarrow> P (Suc 0)"
proof -
  have "{Suc 0..<2} = {Suc 0}" by auto
  then show ?thesis by simp
qed

lemma candidate_2: "office_name_candidate 2 = ''__Fieldmark__lpod_2''"
  by (simp add: office_name_candidate_def str_nat.simps digit_char_def)


text \<open>
  C1. The claim: for every sequence of \<open>N\<close> calls of the allocator against a fixed,
  unchanging used-name set, the \<open>N\<close> returned names are pairwise distinct and none is in
  the used-name set. It fails for two calls with no element given: both return
  \<open>__Fieldmark__lpod_1\<close>, since the allocator is a function of the names in use and does
  not record what it returned.
\<close>

theorem allocations_unchanged_not_distinct:
  "\<not> (distinct (allocations_unchanged [] None 2)
      \<and> set (allocations_unchanged [] None 2)
          \<inter> (scope_used_names [] None \<union> local_used_names None) = {})"
  by (simp add: allocations_unchanged_def numeral_2_eq_2)

text \<open>
  C1, as amended: no name returned by the allocator is in the used-name set; \<open>N\<close> calls
  against an unchanging used-name set return the same name \<open>N\<close> times; and when every
  returned name is put in use before the next call, the \<open>N\<close> returned names are pairwise
  distinct and none of them is in the original used-name set.
\<close>

theorem allocations_fresh_when_recorded:
  "set (allocations_unchanged f element N)
     \<inter> (scope_used_names f element \<union> local_used_names element) = {}
   \<and> allocations_unchanged f element N = replicate N (get_unique_office_name f element)
   \<and> distinct (allocations_recorded used N)
   \<and> set (allocations_recorded used N) \<inter> set used = {}"
proof -
  from get_unique_office_name_used [of f element] obtain u where
    u: "get_unique_office_name f element = first_unused u 1"
       "set u = scope_used_names f element \<union> local_used_names element"
    by blast
  have "get_unique_office_name f element
          \<notin> scope_used_names f element \<union> local_used_names element"
    using first_unused_not_used [of u 1] u by simp
  then have "set (allocations_unchanged f element N)
               \<inter> (scope_used_names f element \<union> local_used_names element) = {}"
    by (auto simp: allocations_unchanged_def)
  with allocations_recorded_fresh [of used N] show ?thesis
    by (simp add: allocations_unchanged_def)
qed

text \<open>
  C2. For every pair of used-name sets (the names of the governing document and the names
  of the element given), the allocator returns the first name of the sequence
  \<open>__Fieldmark__lpod_1\<close>, \<open>__Fieldmark__lpod_2\<close>, ... that is not in their union: a first
  unused counter exists, and the result is its candidate name. When no name is in use the
  result is \<open>__Fieldmark__lpod_1\<close>; when exactly that name is in use it is
  \<open>__Fieldmark__lpod_2\<close>.
\<close>

theorem get_unique_office_name_first_unused:
  "(\<exists>k. spec_first_unused_index (scope_used_names f element \<union> local_used_names element) k)
   \<and> (\<forall>k. spec_first_unused_index (scope_used_names f element \<union> local_used_names element) k
          \<longrightarrow> get_unique_office_name f element = office_name_candidate k)
   \<and> (scope_used_names f element \<union> local_used_names element = {}
          \<longrightarrow> get_unique_office_name f element = ''__Fieldmark__lpod_1'')
   \<and> (scope_used_names f element \<union> local_used_names element = {''__Fieldmark__lpod_1''}
          \<longrightarrow> get_unique_office_name f element = ''__Fieldmark__lpod_2'')"
proof -
  let ?U = "scope_used_names f element \<union> local_used_names element"
  from get_unique_office_name_used [of f element] obtain u where
    u: "get_unique_office_name f element = first_unused u 1" "set u = ?U"
    by blast
  have ex: "\<exists>k. spec_first_unused_index ?U k"
    using spec_first_unused_index_exists [of u] u(2) by simp
  have first: "get_unique_office_name f element = office_name_candidate k"
    if "spec_first_unused_index ?U k" for k
    using first_unused_spec [of u k] that u by simp
  have one: "get_unique_office_name f element = ''__Fieldmark__lpod_1''" if "?U = {}"
  proof -
    from that have "spec_first_unused_index ?U 1"
      by (simp add: spec_first_unused_index_def)
    from first [OF this] show ?thesis by (simp add: candidate_1)
  qed
  have two: "get_unique_office_name f element = ''__Fieldmark__lpod_2''"
    if "?U = {''__Fieldmark__lpod_1''}"
  proof -
    from that have "spec_first_unused_index ?U 2"
      by (simp add: spec_first_unused_index_def candidate_1 candidate_2 ball_from_1_below_2)
    from first [OF this] show ?thesis by (simp add: candidate_2)
  qed
  from ex first one two show ?thesis by blast
qed

theorem get_unique_office_name_first_unused_witness:
  "get_unique_office_name [] None = ''__Fieldmark__lpod_1''
   \<and> get_unique_office_name example_document (Some example_paragraph) = ''__Fieldmark__lpod_2''
   \<and> get_unique_office_name example_document (Some example_paragraph) = office_name_candidate 2"
proof -
  have s: "scope_used_names example_document (Some example_paragraph) = {''__Fieldmark__lpod_1''}"
    by (simp add: scope_used_names_def document_body_def ancestors_def all_elements_def
      subtree_def example_document_def example_paragraph_def example_annotation_def
      get_office_names_def List.map_filter_simps name_def get_attribute_def)
  have l: "local_used_names (Some example_paragraph) = {''__Fieldmark__lpod_1''}"
    by (simp add: local_used_names_def subtree_def example_paragraph_def
      example_annotation_def get_office_names_def List.map_filter_simps name_def
      get_attribute_def)
  have e: "scope_used_names [] None \<union> local_used_names None = {}"
    by (simp add: scope_used_names_def local_used_names_def)
  have i: "spec_first_unused_index
             (scope_used_names example_document (Some example_paragraph)
              \<union> local_used_names (Some example_paragraph)) 2"
    by (simp add: s l spec_first_unused_index_def candidate_1 candidate_2 ball_from_1_below_2)
  from get_unique_office_name_first_unused [of "[]" None]
    get_unique_office_name_first_unused [of example_document "Some example_paragraph"] s l e i
  show ?thesis by (simp add: candidate_2)
qed

section \<open>Properties of elements\<close>

lemma get_attribute_Element: "get_attribute (Element i t a x cs) k = map_of a k"
  by (simp add: get_attribute_def)

lemma get_attribute_set_attribute:
  "get_attribute (set_attribute e k v) k' = (if k' = k then v else get_attribute e k')"
  by (cases v)
     (simp_all add: get_attribute_def set_attribute_def AList.update_conv' AList.delete_conv')

lemma set_attribute_sel:
  "ident (set_attribute e k v) = ident e" "tag (set_attribute e k v) = tag e"
  "element_text (set_attribute e k v) = element_text e"
  "children (set_attribute e k v) = children e"
  by (simp_all add: set_attribute_def)

lemma get_attribute_content:
  "get_attribute (set_text_content e s) k = get_attribute e k"
  "get_attribute (clear e) k = get_attribute e k"
  "get_attribute (append_element e c) k = get_attribute e k"
  by (simp_all add: get_attribute_def set_text_content_def clear_def append_element_def)

lemma find_update_first:
  "(\<And>x. P x \<Longrightarrow> P (g x)) \<Longrightarrow> find P (update_first P g xs) = map_option g (find P xs)"
  by (induction xs) auto

lemma text_content_set_text_content: "text_content (set_text_content e s) = s"
  by (simp add: set_text_content_def)

lemma Note_init_has_body:
  "Note_init fresh c i cit b = Inr n \<Longrightarrow> get_element n ''text:note-body'' \<noteq> None"
  by (cases cit; cases b)
     (auto simp: Note_init_def Let_def insert_element_def set_note_class_def set_note_id_def
        set_attribute_sel get_element_def Note_set_citation_def Note_set_note_body_def
        update_element_def set_text_content_def set_text_def append_element_def clear_def
      split: if_splits)

lemma Note_init_footnote_n1:
  "Note_init 1 (Some ''footnote'') (Some ''n1'') (Some ''1'') PyNone = Inr footnote_n1"
  by (simp add: Note_init_def insert_element_def set_note_class_def set_note_id_def
      set_attribute_def Note_set_citation_def get_element_def update_element_def set_text_def
      footnote_n1_def)

lemma Note_check_validity_iff:
  "get_element self ''text:note-citation'' = Some c \<Longrightarrow>
   get_element self ''text:note-body'' = Some b \<Longrightarrow>
   (\<exists>err. Note_check_validity self = Inl err) \<longleftrightarrow>
     (\<not> truthy (note_class self) \<or> \<not> truthy (note_id self) \<or> element_text c = [])"
  by (simp add: Note_check_validity_def Note_citation_def Note_note_body_def)

lemma Note_check_validity_footnote_n1:
  "Note_check_validity footnote_n1 = Inr ()
   \<and> Note_check_validity (update_element footnote_n1 ''text:note-citation'' (\<lambda>c. set_text c []))
       = Inl (ValueError ''notes must have a citation'')"
  by (simp add: footnote_n1_def Note_check_validity_def note_class_def note_id_def
      get_attribute_def truthy_def Note_citation_def Note_note_body_def get_element_def
      update_element_def set_text_def)

lemma detached_paragraph_parent:
  "parent detached_paragraph (ident lone_annotation) = Some detached_paragraph_element"
  by (simp add: parent_def detached_paragraph_def detached_paragraph_element_def
      all_elements_def subtree_def lone_annotation_def)

lemma detached_paragraph_body:
  "document_body detached_paragraph (ident lone_annotation) = None"
  by (simp add: document_body_def ancestors_def detached_paragraph_def
      detached_paragraph_element_def all_elements_def subtree_def lone_annotation_def)

lemma paired_paragraph_parent:
  "parent paired_paragraph (ident first_start) = Some paired_paragraph_element"
  by (simp add: parent_def paired_paragraph_def paired_paragraph_element_def
      all_elements_def subtree_def first_start_def first_end_def)

lemma paired_paragraph_body:
  "document_body paired_paragraph (ident first_start) = None"
  by (simp add: document_body_def ancestors_def paired_paragraph_def
      paired_paragraph_element_def all_elements_def subtree_def first_start_def first_end_def)


text \<open>
  C3. An annotation that has a parent and no annotation-end of its name in its governing
  scope (the document body when there is one, the parent otherwise): \<open>get_annotated\<close>
  returns the empty text when \<open>as_text\<close> is true and \<open>None\<close> when it is false, whatever
  \<open>get_between\<close> would extract; the rest of the document is never taken for the range.
\<close>

theorem get_annotated_without_end:
  assumes has_parent: "parent f (ident self) = Some p"
    and no_partner:
      "\<forall>e \<in> set (descendants (case document_body f (ident self) of None \<Rightarrow> p | Some b \<Rightarrow> b)).
         \<not> (tag e = ''office:annotation-end'' \<and> name e = name self)"
  shows "Annotation_get_annotated get_between f self True no_header clean = Inr (AsText [])
         \<and> Annotation_get_annotated get_between f self False no_header clean = Inr Absent"
proof -
  from no_partner
  have "get_annotation_end (case document_body f (ident self) of None \<Rightarrow> p | Some b \<Rightarrow> b)
          (name self) = None"
    by (auto simp: get_annotation_end_def find_None_iff)
  with has_parent have "Annotation_end f self = Inr None"
    by (simp add: Annotation_end_def)
  then show ?thesis
    by (simp add: Annotation_get_annotated_def)
qed

theorem get_annotated_without_end_witness:
  "Annotation_get_annotated
     (\<lambda>body start end_tag as_text no_header clean. Inr (AsText ''after''))
     detached_paragraph lone_annotation True True True = Inr (AsText [])
   \<and> Annotation_get_annotated
     (\<lambda>body start end_tag as_text no_header clean. Inr (AsText ''after''))
     detached_paragraph lone_annotation False True True = Inr Absent"
proof -
  have "\<forall>e \<in> set (descendants
                  (case document_body detached_paragraph (ident lone_annotation) of
                     None \<Rightarrow> detached_paragraph_element
                   | Some b \<Rightarrow> b)).
          \<not> (tag e = ''office:annotation-end'' \<and> name e = name lone_annotation)"
    unfolding detached_paragraph_body
    by (simp add: detached_paragraph_element_def lone_annotation_def)
  from get_annotated_without_end [OF detached_paragraph_parent this] show ?thesis by blast
qed

text \<open>
  C6. The lookup of the partner, \<open>Annotation.end\<close> and \<open>AnnotationEnd.start\<close>, raises its
  error exactly when the element has no parent. Otherwise it returns the result of the
  search in the governing scope, the document body when there is one and the parent
  otherwise: the first descendant of the scope, in document order, that is the wanted half
  and has the name of the element, or \<open>None\<close> when there is none. A missing partner is a
  value, not an error.
\<close>

theorem partner_lookup_error_iff_no_parent:
  "(parent f (ident self) = None \<longrightarrow>
      Annotation_end f self = Inl (ValueError ''Can not find end tag: no parent available.'')
      \<and> AnnotationEnd_start f self
          = Inl (ValueError ''Can not find start tag: no parent available.''))
   \<and> (\<forall>p. parent f (ident self) = Some p \<longrightarrow>
         Annotation_end f self =
           Inr (find (\<lambda>e. tag e = ''office:annotation-end'' \<and> name e = name self)
                  (descendants (case document_body f (ident self) of Some b \<Rightarrow> b | None \<Rightarrow> p)))
         \<and> AnnotationEnd_start f self =
           Inr (find (\<lambda>e. tag e = ''office:annotation'' \<and> name e = name self)
                  (descendants (case document_body f (ident self) of Some b \<Rightarrow> b | None \<Rightarrow> p))))
   \<and> ((\<exists>err. Annotation_end f self = Inl err) \<longleftrightarrow> parent f (ident self) = None)
   \<and> ((\<exists>err. AnnotationEnd_start f self = Inl err) \<longleftrightarrow> parent f (ident self) = None)"
  by (cases "parent f (ident self)"; cases "document_body f (ident self)")
     (simp_all add: Annotation_end_def AnnotationEnd_start_def get_annotation_end_def
        get_annotation_def)

theorem partner_lookup_error_iff_no_parent_witness:
  "Annotation_end [lone_annotation] lone_annotation
     = Inl (ValueError ''Can not find end tag: no parent available.'')
   \<and> Annotation_end detached_paragraph lone_annotation = Inr None
   \<and> Annotation_end paired_paragraph first_start = Inr (Some first_end)"
proof -
  have n: "parent [lone_annotation] (ident lone_annotation) = None"
    by (simp add: parent_def all_elements_def subtree_def lone_annotation_def)
  have d: "find (\<lambda>e. tag e = ''office:annotation-end'' \<and> name e = name lone_annotation)
             (descendants detached_paragraph_element) = None"
    by (simp add: detached_paragraph_element_def lone_annotation_def name_def get_attribute_def)
  have p: "find (\<lambda>e. tag e = ''office:annotation-end'' \<and> name e = name first_start)
             (descendants paired_paragraph_element) = Some first_end"
    by (simp add: paired_paragraph_element_def first_start_def first_end_def name_def
        get_attribute_def)
  from partner_lookup_error_iff_no_parent [of "[lone_annotation]" lone_annotation]
    partner_lookup_error_iff_no_parent [of detached_paragraph lone_annotation]
    partner_lookup_error_iff_no_parent [of paired_paragraph first_start]
    n d p detached_paragraph_parent detached_paragraph_body paired_paragraph_parent
    paired_paragraph_body
  show ?thesis by simp
qed

text \<open>
  C7. The claim: validation of a note reports a violation exactly when the class is empty
  or not one of \<open>footnote\<close> and \<open>endnote\<close>, the id is empty or the citation is empty. The
  code tests the class for emptiness only, under an error message that names the two
  classes: a note of the class \<open>bogus\<close> with an id and a citation passes.
\<close>

theorem Note_check_validity_accepts_unrecognized_class:
  "Note_init 1 (Some ''bogus'') (Some ''n1'') (Some ''1'') PyNone = Inr bogus_note
   \<and> Note_check_validity bogus_note = Inr ()"
  by (simp add: Note_init_def insert_element_def set_note_class_def set_note_id_def
      set_attribute_def Note_set_citation_def get_element_def update_element_def set_text_def
      Note_check_validity_def note_class_def note_id_def get_attribute_def truthy_def
      Note_citation_def Note_note_body_def bogus_note_def)

text \<open>
  C8. Validation of an annotation fails when its body is empty and when its creator is
  empty. With a body and a creator, an unset date is not an error: the date is set to the
  current time, which is the only change (identity, tag, text, children and every other
  attribute stay as they were); with a date already set, nothing changes.
\<close>

theorem Annotation_check_validity_cases:
  "(Annotation_note_body self = [] \<longrightarrow>
      Annotation_check_validity now self = Inl (ValueError ''annotation must have a body''))
   \<and> (Annotation_note_body self \<noteq> [] \<and> \<not> truthy (dc_creator self) \<longrightarrow>
      Annotation_check_validity now self = Inl (ValueError ''annotation must have a creator''))
   \<and> (Annotation_note_body self \<noteq> [] \<and> truthy (dc_creator self) \<and> dc_date self = None \<longrightarrow>
      Annotation_check_validity now self = Inr (set_dc_date self now)
      \<and> dc_date (set_dc_date self now) = Some now
      \<and> (\<forall>k. k \<noteq> ''dc:date'' \<longrightarrow> get_attribute (set_dc_date self now) k = get_attribute self k)
      \<and> ident (set_dc_date self now) = ident self
      \<and> tag (set_dc_date self now) = tag self
      \<and> element_text (set_dc_date self now) = element_text self
      \<and> children (set_dc_date self now) = children self)
   \<and> (Annotation_note_body self \<noteq> [] \<and> truthy (dc_creator self) \<and> dc_date self \<noteq> None \<longrightarrow>
      Annotation_check_validity now self = Inr self)"
  by (simp add: Annotation_check_validity_def dc_date_def set_dc_date_def
      get_attribute_set_attribute set_attribute_sel)

theorem Annotation_check_validity_cases_witness:
  "Annotation_check_validity ''2018-03-01T12:00:00''
     (Element 5 ''office:annotation'' [(''dc:creator'', ''Alice'')] ''review me'' [])
   = Inr (Element 5 ''office:annotation''
       [(''dc:creator'', ''Alice''), (''dc:date'', ''2018-03-01T12:00:00'')] ''review me'' [])
   \<and> Annotation_check_validity ''2018-03-01T12:00:00''
       (Element 5 ''office:annotation'' [(''dc:creator'', ''Alice'')] [] [])
     = Inl (ValueError ''annotation must have a body'')
   \<and> Annotation_check_validity ''2018-03-01T12:00:00''
       (Element 5 ''office:annotation'' [] ''review me'' [])
     = Inl (ValueError ''annotation must have a creator'')
   \<and> Annotation_check_validity ''2018-03-01T12:00:00'' first_start = Inr first_start"
  using
    Annotation_check_validity_cases [of
      "Element 5 ''office:annotation'' [(''dc:creator'', ''Alice'')] ''review me'' []"
      "''2018-03-01T12:00:00''"]
    Annotation_check_validity_cases [of
      "Element 5 ''office:annotation'' [(''dc:creator'', ''Alice'')] [] []"
      "''2018-03-01T12:00:00''"]
    Annotation_check_validity_cases [of
      "Element 5 ''office:annotation'' [] ''review me'' []" "''2018-03-01T12:00:00''"]
    Annotation_check_validity_cases [of first_start "''2018-03-01T12:00:00''"]
  by (simp add: Annotation_note_body_def dc_creator_def dc_date_def get_attribute_def
      truthy_def set_dc_date_def set_attribute_def first_start_def)

text \<open>
  C9. For every note that has its body sub-element, as every note that the constructor
  builds has, and every text \<open>T\<close>: setting the body to \<open>T\<close> succeeds and reading the body
  back gives \<open>T\<close>. Setting the body to a value that is neither a text (\<open>str\<close> or \<open>bytes\<close>)
  nor an element raises the \<open>ValueError\<close> of the setter, and no other value does.
\<close>

theorem Note_note_body_round_trip:
  "(get_element self ''text:note-body'' \<noteq> None \<longrightarrow>
      (\<exists>self'. Note_set_note_body self (PyStr T) = Inr self' \<and> Note_note_body self' = Inr T))
   \<and> (\<forall>fresh c i cit b nt. Note_init fresh c i cit b = Inr nt \<longrightarrow>
         (\<exists>nt'. Note_set_note_body nt (PyStr T) = Inr nt' \<and> Note_note_body nt' = Inr T))
   \<and> Note_set_note_body self PyNone = Inl (ValueError ''Unexpected type for body'')
   \<and> Note_set_note_body self (PyInt n) = Inl (ValueError ''Unexpected type for body'')
   \<and> (\<forall>v. (\<exists>err. Note_set_note_body self v = Inl (ValueError err))
          \<longleftrightarrow> (\<forall>s. v \<noteq> PyStr s) \<and> (\<forall>s. v \<noteq> PyBytes s) \<and> (\<forall>el. v \<noteq> PyElement el))"
proof -
  have tagp: "tag (set_text_content x s) = ''text:note-body''"
    if "tag x = ''text:note-body''" for x s
    using that by (simp add: set_text_content_def)
  have rt: "\<exists>nt'. Note_set_note_body nt (PyStr T) = Inr nt' \<and> Note_note_body nt' = Inr T"
    if "get_element nt ''text:note-body'' \<noteq> None" for nt
  proof -
    from that obtain b where
      b: "find (\<lambda>c. tag c = ''text:note-body'') (children nt) = Some b"
      by (auto simp: get_element_def)
    have "find (\<lambda>c. tag c = ''text:note-body'')
            (update_first (\<lambda>c. tag c = ''text:note-body'') (\<lambda>c. set_text_content c T)
               (children nt))
          = Some (set_text_content b T)"
      using find_update_first [of "\<lambda>c. tag c = ''text:note-body''"
          "\<lambda>c. set_text_content c T" "children nt"] tagp b
      by simp
    then show ?thesis
      using b
      by (simp add: Note_set_note_body_def Note_note_body_def get_element_def
          update_element_def text_content_set_text_content)
  qed
  have built: "\<exists>nt'. Note_set_note_body nt (PyStr T) = Inr nt' \<and> Note_note_body nt' = Inr T"
    if "Note_init fresh c i cit b = Inr nt" for fresh c i cit b nt
    using rt [OF Note_init_has_body [OF that]] .
  have ty: "(\<exists>err. Note_set_note_body self v = Inl (ValueError err))
          \<longleftrightarrow> (\<forall>s. v \<noteq> PyStr s) \<and> (\<forall>s. v \<noteq> PyBytes s) \<and> (\<forall>el. v \<noteq> PyElement el)" for v
    by (cases v) (simp_all add: Note_set_note_body_def split: option.splits)
  have e1: "Note_set_note_body self PyNone = Inl (ValueError ''Unexpected type for body'')"
    and e2: "Note_set_note_body self (PyInt n) = Inl (ValueError ''Unexpected type for body'')"
    by (simp_all add: Note_set_note_body_def)
  from rt [of self] built ty e1 e2 show ?thesis by blast
qed

theorem Note_note_body_round_trip_witness:
  "Note_set_note_body footnote_n1 (PyStr ''See page 3.'')
     = Inr (update_element footnote_n1 ''text:note-body'' (\<lambda>c. set_text_content c ''See page 3.''))
   \<and> Note_note_body
       (update_element footnote_n1 ''text:note-body'' (\<lambda>c. set_text_content c ''See page 3.''))
     = Inr ''See page 3.''"
proof -
  have g: "get_element footnote_n1 ''text:note-body'' \<noteq> None"
    by (simp add: footnote_n1_def get_element_def)
  have s: "Note_set_note_body footnote_n1 (PyStr ''See page 3.'')
     = Inr (update_element footnote_n1 ''text:note-body'' (\<lambda>c. set_text_content c ''See page 3.''))"
    by (simp add: footnote_n1_def get_element_def Note_set_note_body_def)
  from Note_note_body_round_trip [of footnote_n1 "''See page 3.''"] g s
  show ?thesis by auto
qed

text \<open>
  C10. When a new annotation is constructed with a name that is not empty, the name is not
  assigned: the \<open>office:name\<close> of the new element is unset. A name is assigned only when the
  name given is \<open>None\<close> or empty, and it is then the autogenerated one.
\<close>

theorem Annotation_init_keeps_given_name_unset:
  "Annotation_init f fresh now text_or_element creator date name_arg parent_arg = Inr a \<Longrightarrow>
   name a = (if truthy name_arg then None else Some (get_unique_office_name f parent_arg))"
  by (cases text_or_element)
     (auto simp: Annotation_init_def Annotation_set_note_body_def Let_def name_def set_name_def
        set_dc_date_def set_dc_creator_def get_attribute_set_attribute get_attribute_content
        get_attribute_Element
      split: if_splits)

theorem Annotation_init_keeps_given_name_unset_witness:
  "Annotation_init [] 5 ''2018-01-01T00:00:00'' (PyStr ''review me'') (Some ''Alice'') None
     (Some ''mine'') None
   = Inr (Element 5 ''office:annotation''
       [(''dc:creator'', ''Alice''), (''dc:date'', ''2018-01-01T00:00:00'')] ''review me'' [])
   \<and> name (Element 5 ''office:annotation''
       [(''dc:creator'', ''Alice''), (''dc:date'', ''2018-01-01T00:00:00'')] ''review me'' [])
     = None"
proof -
  have i: "Annotation_init [] 5 ''2018-01-01T00:00:00'' (PyStr ''review me'') (Some ''Alice'')
     None (Some ''mine'') None
   = Inr (Element 5 ''office:annotation''
       [(''dc:creator'', ''Alice''), (''dc:date'', ''2018-01-01T00:00:00'')] ''review me'' [])"
    by (simp add: Annotation_init_def Annotation_set_note_body_def set_text_content_def
        truthy_def set_dc_creator_def set_dc_date_def set_attribute_def)
  from Annotation_init_keeps_given_name_unset [OF i] i show ?thesis by (simp add: truthy_def)
qed

section \<open>Properties of the tree\<close>

lemma subtree_Element: "subtree (Element i t a x cs) = Element i t a x cs # concat (map subtree cs)"
proof -
  have "(\<lambda>c. c # descendants c) = subtree" by (simp add: fun_eq_iff subtree_def)
  then show ?thesis by (simp add: subtree_def)
qed

lemma descendants_children: "descendants e = concat (map subtree (children e))"
  using subtree_Element [of "ident e" "tag e" "attrib e" "element_text e" "children e"]
  by (simp add: subtree_def)

declare descendants.simps [simp del]

lemma self_in_subtree: "e \<in> set (subtree e)"
  by (simp add: subtree_def)

lemma descendants_subset_subtree: "set (descendants e) \<subseteq> set (subtree e)"
  by (auto simp: subtree_def)

lemma in_descendants_iff:
  "x \<in> set (descendants e) \<longleftrightarrow> (\<exists>c \<in> set (children e). x \<in> set (subtree c))"
  by (auto simp: descendants_children)

lemma subtree_trans:
  "y \<in> set (subtree x) \<Longrightarrow> z \<in> set (subtree y) \<Longrightarrow> z \<in> set (subtree x)"
proof (induction x)
  case (Element i t a tx cs)
  show ?case
  proof (cases "y = Element i t a tx cs")
    case True
    with Element.prems show ?thesis by simp
  next
    case False
    with Element.prems(1) obtain c where c: "c \<in> set cs" "y \<in> set (subtree c)"
      by (auto simp: subtree_Element)
    from Element.IH [OF c(1) c(2) Element.prems(2)] c(1) show ?thesis
      by (auto simp: subtree_Element)
  qed
qed

lemma children_in_descendants:
  "p \<in> set (subtree x) \<Longrightarrow> c \<in> set (children p) \<Longrightarrow> c \<in> set (descendants x)"
proof -
  assume p: "p \<in> set (subtree x)" and c: "c \<in> set (children p)"
  have "c \<in> set (descendants p)"
    using c self_in_subtree [of c] by (auto simp: in_descendants_iff)
  show ?thesis
  proof (cases "p = x")
    case True
    with \<open>c \<in> set (descendants p)\<close> show ?thesis by simp
  next
    case False
    with p have "p \<in> set (descendants x)" by (simp add: subtree_def)
    then obtain c' where c': "c' \<in> set (children x)" "p \<in> set (subtree c')"
      by (auto simp: in_descendants_iff)
    have "c \<in> set (subtree p)"
      using \<open>c \<in> set (descendants p)\<close> descendants_subset_subtree by blast
    from subtree_trans [OF c'(2) this] c'(1) show ?thesis
      by (auto simp: in_descendants_iff)
  qed
qed

lemma parent_in_subtree:
  "e \<in> set (descendants x) \<Longrightarrow> \<exists>p \<in> set (subtree x). e \<in> set (children p)"
proof (induction x)
  case (Element i t a tx cs)
  from Element.prems obtain c where c: "c \<in> set cs" "e \<in> set (subtree c)"
    by (auto simp: in_descendants_iff)
  show ?case
  proof (cases "e = c")
    case True
    with c(1) self_in_subtree [of "Element i t a tx cs"] show ?thesis
      by (intro bexI [of _ "Element i t a tx cs"]) simp_all
  next
    case False
    with c(2) have "e \<in> set (descendants c)" by (simp add: subtree_def)
    from Element.IH [OF c(1) this] obtain p where p: "p \<in> set (subtree c)" "e \<in> set (children p)"
      by blast
    from p(1) c(1) have "p \<in> set (subtree (Element i t a tx cs))"
      by (auto simp: subtree_Element)
    with p(2) show ?thesis by blast
  qed
qed

lemma subtree_in_all_elements:
  "x \<in> set (all_elements f) \<Longrightarrow> set (subtree x) \<subseteq> set (all_elements f)"
proof
  fix z
  assume "x \<in> set (all_elements f)" and z: "z \<in> set (subtree x)"
  then obtain r where r: "r \<in> set f" "x \<in> set (subtree r)"
    by (auto simp: all_elements_def)
  from subtree_trans [OF r(2) z] r(1) show "z \<in> set (all_elements f)"
    by (auto simp: all_elements_def)
qed

lemma subtree_decomp:
  "y \<in> set (subtree r) \<Longrightarrow> \<exists>pre post. subtree r = pre @ subtree y @ post"
proof (induction r)
  case (Element i t a tx cs)
  show ?case
  proof (cases "y = Element i t a tx cs")
    case True
    then have "subtree (Element i t a tx cs) = [] @ subtree y @ []" by simp
    then show ?thesis by blast
  next
    case False
    with Element.prems obtain c where c: "c \<in> set cs" "y \<in> set (subtree c)"
      by (auto simp: subtree_Element)
    from Element.IH [OF c] obtain pre post where d: "subtree c = pre @ subtree y @ post"
      by blast
    from c(1) obtain cs1 cs2 where s: "cs = cs1 @ c # cs2"
      by (auto simp: in_set_conv_decomp)
    have "subtree (Element i t a tx cs)
          = (Element i t a tx cs # concat (map subtree cs1) @ pre) @ subtree y
            @ (post @ concat (map subtree cs2))"
      by (simp add: subtree_Element s d)
    then show ?thesis by blast
  qed
qed

lemma all_elements_decomp:
  "y \<in> set (all_elements f) \<Longrightarrow> \<exists>pre post. all_elements f = pre @ subtree y @ post"
proof -
  assume "y \<in> set (all_elements f)"
  then obtain r where r: "r \<in> set f" "y \<in> set (subtree r)"
    by (auto simp: all_elements_def)
  from subtree_decomp [OF r(2)] obtain pre post where d: "subtree r = pre @ subtree y @ post"
    by blast
  from r(1) obtain f1 f2 where s: "f = f1 @ r # f2"
    by (auto simp: in_set_conv_decomp)
  have "all_elements f = (concat (map subtree f1) @ pre) @ subtree y
          @ (post @ concat (map subtree f2))"
    by (simp add: all_elements_def s d)
  then show ?thesis by blast
qed

lemma distinct_no_self_descendant:
  assumes "distinct (map ident (all_elements f))" and "y \<in> set (all_elements f)"
  shows "ident y \<notin> ident ` set (descendants y)"
proof -
  from all_elements_decomp [OF assms(2)] obtain pre post where
    "all_elements f = pre @ subtree y @ post" by blast
  with assms(1) have "distinct (map ident (subtree y))" by simp
  then show ?thesis by (simp add: subtree_def)
qed

lemma distinct_ident_unique:
  assumes "distinct (map ident (all_elements f))"
    and "x \<in> set (all_elements f)" and "y \<in> set (all_elements f)" and "ident x = ident y"
  shows "x = y"
proof -
  from assms(1) have "inj_on ident (set (all_elements f))"
    by (simp add: distinct_map)
  with assms(2-4) show ?thesis by (auto dest: inj_onD)
qed

lemma remove_child_sel:
  "ident (remove_child i p) = ident p" "tag (remove_child i p) = tag p"
  "attrib (remove_child i p) = attrib p" "element_text (remove_child i p) = element_text p"
  "children (remove_child i p) = map (remove_child i) (filter (\<lambda>c. ident c \<noteq> i) (children p))"
  by (cases p; simp)+

lemma remove_child_idents:
  "map ident (children (remove_child i p)) = filter (\<lambda>j. j \<noteq> i) (map ident (children p))"
  by (simp add: remove_child_sel filter_map comp_def)

lemma descendants_remove_child:
  "q \<in> set (descendants (remove_child i r)) \<Longrightarrow> \<exists>p \<in> set (descendants r). q = remove_child i p"
proof (induction r)
  case (Element j t a tx cs)
  from Element.prems obtain c where c: "c \<in> set cs" "ident c \<noteq> i"
    "q \<in> set (subtree (remove_child i c))"
    by (auto simp: in_descendants_iff remove_child_sel)
  have sub: "set (subtree c) \<subseteq> set (descendants (Element j t a tx cs))"
    using c(1) by (auto simp: in_descendants_iff)
  show ?case
  proof (cases "q = remove_child i c")
    case True
    with sub self_in_subtree [of c] show ?thesis by blast
  next
    case False
    with c(3) have "q \<in> set (descendants (remove_child i c))" by (simp add: subtree_def)
    from Element.IH [OF c(1) this] obtain p where "p \<in> set (descendants c)" "q = remove_child i p"
      by blast
    with sub descendants_subset_subtree [of c] show ?thesis by blast
  qed
qed

lemma subtree_remove_child:
  "q \<in> set (subtree (remove_child i r)) \<Longrightarrow> \<exists>p \<in> set (subtree r). q = remove_child i p"
  using descendants_remove_child [of q i r] by (auto simp: subtree_def)

lemma remove_child_kept:
  "p \<in> set (subtree r) \<Longrightarrow>
   remove_child i p \<in> set (subtree (remove_child i r))
   \<or> (\<exists>y \<in> set (descendants r). ident y = i \<and> p \<in> set (subtree y))"
proof (induction r)
  case (Element j t a tx cs)
  show ?case
  proof (cases "p = Element j t a tx cs")
    case True
    then show ?thesis using self_in_subtree by simp
  next
    case False
    with Element.prems obtain c where c: "c \<in> set cs" "p \<in> set (subtree c)"
      by (auto simp: subtree_Element)
    have sub: "set (subtree c) \<subseteq> set (descendants (Element j t a tx cs))"
      using c(1) by (auto simp: in_descendants_iff)
    show ?thesis
    proof (cases "ident c = i")
      case True
      with c(2) sub self_in_subtree [of c] show ?thesis by blast
    next
      case keep: False
      from Element.IH [OF c] show ?thesis
      proof
        assume "remove_child i p \<in> set (subtree (remove_child i c))"
        with c(1) keep
        have "remove_child i p \<in> set (descendants (remove_child i (Element j t a tx cs)))"
          by (auto simp: in_descendants_iff remove_child_sel)
        then show ?thesis by (simp add: subtree_def)
      next
        assume "\<exists>y \<in> set (descendants c). ident y = i \<and> p \<in> set (subtree y)"
        then obtain y where y: "y \<in> set (descendants c)" "ident y = i" "p \<in> set (subtree y)"
          by blast
        from y(1) sub descendants_subset_subtree [of c]
        have "y \<in> set (descendants (Element j t a tx cs))" by blast
        with y(2,3) show ?thesis by blast
      qed
    qed
  qed
qed

lemma all_elements_detach:
  "all_elements (detach f i) =
     all_elements (map (remove_child i) f)
     @ (case find_element f i of None \<Rightarrow> [] | Some y \<Rightarrow> subtree y)"
  by (simp add: detach_def all_elements_def split: option.splits)

lemma in_all_elements_detach:
  "q \<in> set (all_elements (detach f i)) \<longleftrightarrow>
     q \<in> set (all_elements (map (remove_child i) f))
     \<or> (\<exists>y. find_element f i = Some y \<and> q \<in> set (subtree y))"
  by (cases "find_element f i") (simp_all add: all_elements_detach)

lemma all_elements_remove_child:
  "q \<in> set (all_elements (map (remove_child i) f)) \<Longrightarrow>
   \<exists>p \<in> set (all_elements f). q = remove_child i p"
proof -
  assume "q \<in> set (all_elements (map (remove_child i) f))"
  then obtain r where r: "r \<in> set f" "q \<in> set (subtree (remove_child i r))"
    by (auto simp: all_elements_def)
  from subtree_remove_child [OF r(2)] obtain p where "p \<in> set (subtree r)" "q = remove_child i p"
    by blast
  with r(1) show ?thesis by (auto simp: all_elements_def)
qed

lemma all_elements_kept:
  assumes "p \<in> set (all_elements f)"
  shows "remove_child i p \<in> set (all_elements (map (remove_child i) f))
         \<or> (\<exists>y \<in> set (all_elements f). ident y = i \<and> p \<in> set (subtree y))"
proof -
  from assms obtain r where r: "r \<in> set f" "p \<in> set (subtree r)"
    by (auto simp: all_elements_def)
  from remove_child_kept [OF r(2), of i] show ?thesis
  proof
    assume "remove_child i p \<in> set (subtree (remove_child i r))"
    with r(1) show ?thesis by (auto simp: all_elements_def)
  next
    assume "\<exists>y \<in> set (descendants r). ident y = i \<and> p \<in> set (subtree y)"
    then obtain y where y: "y \<in> set (descendants r)" "ident y = i" "p \<in> set (subtree y)"
      by blast
    from y(1) r(1) descendants_subset_subtree [of r] have "y \<in> set (all_elements f)"
      by (auto simp: all_elements_def)
    with y(2,3) show ?thesis by blast
  qed
qed

lemma find_element_Some:
  "find_element f i = Some y \<Longrightarrow> y \<in> set (all_elements f) \<and> ident y = i"
  by (auto simp: find_element_def find_Some_iff)

lemma find_element_exists:
  "y \<in> set (all_elements f) \<Longrightarrow> \<exists>y0. find_element f (ident y) = Some y0"
  by (cases "find_element f (ident y)") (auto simp: find_element_def find_None_iff)

lemma parent_Some:
  "parent f i = Some p \<Longrightarrow> p \<in> set (all_elements f) \<and> i \<in> ident ` set (children p)"
  by (auto simp: parent_def find_Some_iff)

lemma parent_None_iff:
  "parent f i = None \<longleftrightarrow> (\<forall>p \<in> set (all_elements f). i \<notin> ident ` set (children p))"
  by (auto simp: parent_def find_None_iff)

lemma document_body_Some: "document_body f i = Some b \<Longrightarrow> b \<in> set (all_elements f)"
proof -
  assume "document_body f i = Some b"
  then obtain bs where bs: "filter (\<lambda>a. tag a = ''office:body'') (ancestors f i) = bs"
    "bs \<noteq> []" "b = last bs"
    by (auto simp: document_body_def split: list.splits)
  then have "b \<in> set bs" by simp
  with bs(1) show ?thesis by (auto simp: ancestors_def)
qed

lemma distinct_no_self: "distinct (map ident (all_elements f)) \<Longrightarrow> no_self_descendant f"
  by (simp add: no_self_descendant_def distinct_no_self_descendant)

lemma no_self_descendantD:
  assumes "no_self_descendant f" and "y \<in> set (all_elements f)" and "d \<in> set (descendants y)"
  shows "ident d \<noteq> ident y"
proof
  assume "ident d = ident y"
  with assms(3) have "ident y \<in> ident ` set (descendants y)" by (metis imageI)
  with assms(1,2) show False by (simp add: no_self_descendant_def)
qed

lemma no_self_children:
  assumes "no_self_descendant f" and "y \<in> set (all_elements f)" and "q \<in> set (subtree y)"
  shows "ident y \<notin> ident ` set (children q)"
proof
  assume "ident y \<in> ident ` set (children q)"
  then obtain c where c: "c \<in> set (children q)" "ident c = ident y" by auto
  from no_self_descendantD [OF assms(1,2) children_in_descendants [OF assms(3) c(1)]] c(2)
  show False by simp
qed

lemma no_self_descendant_detach:
  assumes "no_self_descendant f"
  shows "no_self_descendant (detach f i)"
  unfolding no_self_descendant_def
proof
  fix q assume "q \<in> set (all_elements (detach f i))"
  then consider (moved) "q \<in> set (all_elements (map (remove_child i) f))"
    | (kept) y where "find_element f i = Some y" "q \<in> set (subtree y)"
    by (auto simp: in_all_elements_detach)
  then show "ident q \<notin> ident ` set (descendants q)"
  proof cases
    case moved
    from all_elements_remove_child [OF moved] obtain p where
      p: "p \<in> set (all_elements f)" "q = remove_child i p" by blast
    show ?thesis
    proof
      assume "ident q \<in> ident ` set (descendants q)"
      then obtain d where d: "d \<in> set (descendants q)" "ident d = ident q" by auto
      from d(1) p(2) descendants_remove_child [of d i p] obtain d0 where
        d0: "d0 \<in> set (descendants p)" "d = remove_child i d0" by blast
      from d(2) d0(2) p(2) have "ident d0 = ident p" by (simp add: remove_child_sel)
      with no_self_descendantD [OF assms p(1) d0(1)] show False by simp
    qed
  next
    case kept
    from find_element_Some [OF kept(1)] subtree_in_all_elements [of y f] kept(2)
    have "q \<in> set (all_elements f)" by blast
    with assms show ?thesis by (simp add: no_self_descendant_def)
  qed
qed

lemma parent_detach_self:
  assumes "no_self_descendant f"
  shows "parent (detach f i) i = None"
  unfolding parent_None_iff
proof
  fix q assume "q \<in> set (all_elements (detach f i))"
  then consider (moved) "q \<in> set (all_elements (map (remove_child i) f))"
    | (kept) y where "find_element f i = Some y" "q \<in> set (subtree y)"
    by (auto simp: in_all_elements_detach)
  then show "i \<notin> ident ` set (children q)"
  proof cases
    case moved
    from all_elements_remove_child [OF moved] obtain p where "q = remove_child i p" by blast
    then have "set (map ident (children q)) = set (filter (\<lambda>j. j \<noteq> i) (map ident (children p)))"
      by (simp only: remove_child_idents)
    then show ?thesis by auto
  next
    case kept
    from find_element_Some [OF kept(1)] have y: "y \<in> set (all_elements f)" "ident y = i" by simp_all
    from no_self_children [OF assms y(1) kept(2)] y(2) show ?thesis by simp
  qed
qed

lemma parent_detach_None:
  assumes "parent f j = None"
  shows "parent (detach f i) j = None"
  unfolding parent_None_iff
proof
  fix q assume "q \<in> set (all_elements (detach f i))"
  then consider (moved) "q \<in> set (all_elements (map (remove_child i) f))"
    | (kept) y where "find_element f i = Some y" "q \<in> set (subtree y)"
    by (auto simp: in_all_elements_detach)
  then show "j \<notin> ident ` set (children q)"
  proof cases
    case moved
    from all_elements_remove_child [OF moved] obtain p where
      p: "p \<in> set (all_elements f)" "q = remove_child i p" by blast
    from p(2) have "set (map ident (children q)) = set (filter (\<lambda>j. j \<noteq> i) (map ident (children p)))"
      by (simp only: remove_child_idents)
    then have "ident ` set (children q) \<subseteq> ident ` set (children p)" by auto
    with assms p(1) show ?thesis by (auto simp: parent_None_iff)
  next
    case kept
    from find_element_Some [OF kept(1)] subtree_in_all_elements [of y f] kept(2)
    have "q \<in> set (all_elements f)" by blast
    with assms show ?thesis by (simp add: parent_None_iff)
  qed
qed

lemma parent_detach_other:
  assumes wf: "distinct (map ident (all_elements f))"
    and par: "parent f j \<noteq> None" and ne: "j \<noteq> i"
  shows "parent (detach f i) j \<noteq> None"
proof -
  from par obtain p where "parent f j = Some p" by auto
  from parent_Some [OF this] have p: "p \<in> set (all_elements f)" "j \<in> ident ` set (children p)"
    by simp_all
  have "\<exists>q \<in> set (all_elements (detach f i)). j \<in> ident ` set (children q)"
    using all_elements_kept [OF p(1), of i]
  proof
    assume m: "remove_child i p \<in> set (all_elements (map (remove_child i) f))"
    have "set (map ident (children (remove_child i p)))
            = set (filter (\<lambda>j. j \<noteq> i) (map ident (children p)))"
      by (simp only: remove_child_idents)
    with p(2) ne have "j \<in> ident ` set (children (remove_child i p))" by auto
    with m show ?thesis by (auto simp: all_elements_detach)
  next
    assume "\<exists>y \<in> set (all_elements f). ident y = i \<and> p \<in> set (subtree y)"
    then obtain y where y: "y \<in> set (all_elements f)" "ident y = i" "p \<in> set (subtree y)"
      by blast
    from find_element_exists [OF y(1)] y(2) obtain y0 where y0: "find_element f i = Some y0"
      by auto
    from find_element_Some [OF y0] y(1,2) have "y0 = y"
      by (auto intro: distinct_ident_unique [OF wf])
    with y0 y(3) have "p \<in> set (all_elements (detach f i))"
      by (simp add: all_elements_detach)
    with p(2) show ?thesis by blast
  qed
  then show ?thesis by (simp add: parent_None_iff)
qed

lemma unchanged_but_detach:
  assumes wf: "distinct (map ident (all_elements f))"
  shows "unchanged_but f (detach f i) i"
proof -
  have inside: "same_but i q q"
    if "find_element f i = Some y" "q \<in> set (subtree y)" for y q
  proof -
    from find_element_Some [OF that(1)] have y: "y \<in> set (all_elements f)" "ident y = i"
      by simp_all
    from no_self_children [OF distinct_no_self [OF wf] y(1) that(2)] y(2)
    have "i \<notin> set (map ident (children q))" by simp
    then have "filter (\<lambda>j. j \<noteq> i) (map ident (children q)) = map ident (children q)"
      by (intro filter_True) auto
    then show ?thesis by (simp add: same_but_def)
  qed
  have forward: "\<exists>p' \<in> set (all_elements (detach f i)). same_but i p p'"
    if "p \<in> set (all_elements f)" for p
    using all_elements_kept [OF that, of i]
  proof
    assume "remove_child i p \<in> set (all_elements (map (remove_child i) f))"
    moreover have "same_but i p (remove_child i p)"
      by (simp add: same_but_def remove_child_sel(1-4) remove_child_idents)
    ultimately show ?thesis by (auto simp: all_elements_detach)
  next
    assume "\<exists>y \<in> set (all_elements f). ident y = i \<and> p \<in> set (subtree y)"
    then obtain y where y: "y \<in> set (all_elements f)" "ident y = i" "p \<in> set (subtree y)"
      by blast
    from find_element_exists [OF y(1)] y(2) obtain y0 where y0: "find_element f i = Some y0"
      by auto
    from find_element_Some [OF y0] y(1,2) have "y0 = y"
      by (auto intro: distinct_ident_unique [OF wf])
    with y0 y(3) have "p \<in> set (all_elements (detach f i))"
      by (simp add: all_elements_detach)
    moreover from inside y0 \<open>y0 = y\<close> y(3) have "same_but i p p" by blast
    ultimately show ?thesis by blast
  qed
  have backward: "\<exists>p \<in> set (all_elements f). same_but i p q"
    if "q \<in> set (all_elements (detach f i))" for q
  proof -
    from that consider (moved) "q \<in> set (all_elements (map (remove_child i) f))"
      | (kept) y where "find_element f i = Some y" "q \<in> set (subtree y)"
      by (auto simp: in_all_elements_detach)
    then show ?thesis
    proof cases
      case moved
      from all_elements_remove_child [OF moved] obtain p where
        p: "p \<in> set (all_elements f)" "q = remove_child i p" by blast
      have "same_but i p (remove_child i p)"
        by (simp add: same_but_def remove_child_sel(1-4) remove_child_idents)
      with p show ?thesis by blast
    next
      case kept
      from find_element_Some [OF kept(1)] subtree_in_all_elements [of y f] kept(2)
      have "q \<in> set (all_elements f)" by blast
      with inside [OF kept] show ?thesis by blast
    qed
  qed
  from forward backward show ?thesis by (simp add: unchanged_but_def)
qed

lemma find_first:
  "P x \<Longrightarrow> \<forall>y \<in> set pre. \<not> P y \<Longrightarrow> find P (pre @ x # post) = Some x"
  by (induction pre) simp_all

lemma Annotation_end_Some:
  assumes "Annotation_end f self = Inr (Some e)"
  shows "e \<in> set (all_elements f) \<and> parent f (ident e) \<noteq> None
         \<and> tag e = ''office:annotation-end'' \<and> parent f (ident self) \<noteq> None"
proof -
  from assms obtain p where p: "parent f (ident self) = Some p"
    by (auto simp: Annotation_end_def split: option.splits)
  define scope where "scope = (case document_body f (ident self) of None \<Rightarrow> p | Some b \<Rightarrow> b)"
  from assms p have f: "get_annotation_end scope (name self) = Some e"
    by (simp add: Annotation_end_def scope_def)
  have scope: "scope \<in> set (all_elements f)"
    using parent_Some [OF p] document_body_Some [of f "ident self"]
    by (auto simp: scope_def split: option.splits)
  from f have e: "e \<in> set (descendants scope)" "tag e = ''office:annotation-end''"
    by (auto simp: get_annotation_end_def find_Some_iff)
  from parent_in_subtree [OF e(1)] obtain q where q: "q \<in> set (subtree scope)" "e \<in> set (children q)"
    by blast
  from q(1) subtree_in_all_elements [OF scope] have "q \<in> set (all_elements f)" by blast
  with q(2) have "parent f (ident e) \<noteq> None" by (auto simp: parent_None_iff)
  moreover from e(1) descendants_subset_subtree [of scope] subtree_in_all_elements [OF scope]
  have "e \<in> set (all_elements f)" by blast
  ultimately show ?thesis using e(2) p by simp
qed

lemma name_set_name: "name (set_name e v) = v"
  by (simp add: name_def set_name_def get_attribute_set_attribute)

lemma set_name_sel: "ident (set_name e v) = ident e" "tag (set_name e v) = tag e"
  by (simp_all add: set_name_def set_attribute_sel)

lemma AnnotationEnd_init_Inr:
  assumes "AnnotationEnd_init fresh (Some start) nm = Inr end_tag"
  shows "name end_tag = name start \<and> tag end_tag = ''office:annotation-end''
         \<and> ident end_tag = fresh \<and> truthy (name start)"
  using assms
  by (auto simp: AnnotationEnd_init_def Let_def name_set_name set_name_sel split: if_splits)

text \<open>
  C4. An annotation of a forest whose elements have distinct identities is deleted with no
  child given. When \<open>Annotation.end\<close> finds an annotation-end, the end is removed first (its
  removal succeeds) and then the annotation: the result is the forest after the two
  removals, and neither the annotation nor its end is the child of any element any more.
  When \<open>Annotation.end\<close> finds none, only the annotation is removed: it is no longer the
  child of any element, and every element of the forest is still there with its identity,
  tag, attributes, text and children, but for the annotation among the children of its
  parent.
\<close>

theorem Annotation_delete_cascade:
  assumes wf: "distinct (map ident (all_elements f))"
    and self_in: "self \<in> set (all_elements f)"
    and is_annotation: "tag self = ''office:annotation''"
  shows
    "(\<forall>e. Annotation_end f self = Inr (Some e) \<longrightarrow>
        Element_delete f (ident e) = Inr (detach f (ident e))
        \<and> Annotation_delete f self None = Inr (detach (detach f (ident e)) (ident self))
        \<and> parent (detach (detach f (ident e)) (ident self)) (ident self) = None
        \<and> parent (detach (detach f (ident e)) (ident self)) (ident e) = None)
     \<and> (Annotation_end f self = Inr None \<longrightarrow>
        Annotation_delete f self None = Inr (detach f (ident self))
        \<and> parent (detach f (ident self)) (ident self) = None
        \<and> unchanged_but f (detach f (ident self)) (ident self))"
proof (intro conjI allI impI)
  fix e assume e: "Annotation_end f self = Inr (Some e)"
  from Annotation_end_Some [OF e] have ein: "e \<in> set (all_elements f)"
    and epar: "parent f (ident e) \<noteq> None" and etag: "tag e = ''office:annotation-end''"
    and spar: "parent f (ident self) \<noteq> None"
    by simp_all
  from etag is_annotation have "e \<noteq> self" by auto
  with distinct_ident_unique [OF wf ein self_in] have ne: "ident self \<noteq> ident e" by auto
  from epar show d1: "Element_delete f (ident e) = Inr (detach f (ident e))"
    by (auto simp: Element_delete_def)
  from parent_detach_other [OF wf spar ne]
  have "Element_delete (detach f (ident e)) (ident self)
          = Inr (detach (detach f (ident e)) (ident self))"
    by (auto simp: Element_delete_def)
  with e d1 show "Annotation_delete f self None = Inr (detach (detach f (ident e)) (ident self))"
    by (simp add: Annotation_delete_def)
  from no_self_descendant_detach [OF distinct_no_self [OF wf], of "ident e"]
  show "parent (detach (detach f (ident e)) (ident self)) (ident self) = None"
    by (rule parent_detach_self)
  from parent_detach_self [OF distinct_no_self [OF wf], of "ident e"]
  show "parent (detach (detach f (ident e)) (ident self)) (ident e) = None"
    by (rule parent_detach_None)
next
  assume n: "Annotation_end f self = Inr None"
  then have "parent f (ident self) \<noteq> None"
    by (auto simp: Annotation_end_def split: option.splits)
  then have "Element_delete f (ident self) = Inr (detach f (ident self))"
    by (auto simp: Element_delete_def)
  with n show "Annotation_delete f self None = Inr (detach f (ident self))"
    by (simp add: Annotation_delete_def)
  from distinct_no_self [OF wf] show "parent (detach f (ident self)) (ident self) = None"
    by (rule parent_detach_self)
  from wf show "unchanged_but f (detach f (ident self)) (ident self)"
    by (rule unchanged_but_detach)
qed

theorem Annotation_delete_cascade_witness:
  "Annotation_delete paired_paragraph first_start None
     = Inr [Element 20 ''text:p'' [] [] [Element 25 ''text:span'' [] ''annotated'' []],
            first_end, first_start]
   \<and> Annotation_delete detached_paragraph lone_annotation None
     = Inr [Element 10 ''text:p'' [] ''before'' [Element 12 ''text:span'' [] ''after'' []],
            lone_annotation]"
proof -
  have w1: "distinct (map ident (all_elements paired_paragraph))"
    by (simp add: paired_paragraph_def paired_paragraph_element_def first_start_def
        first_end_def all_elements_def subtree_def descendants.simps)
  have i1: "first_start \<in> set (all_elements paired_paragraph)"
    by (simp add: paired_paragraph_def paired_paragraph_element_def
        all_elements_def subtree_def descendants.simps)
  have t1: "tag first_start = ''office:annotation''"
    by (simp add: first_start_def)
  have e1: "Annotation_end paired_paragraph first_start = Inr (Some first_end)"
    by (simp add: Annotation_end_def paired_paragraph_parent paired_paragraph_body
        get_annotation_end_def)
       (simp add: paired_paragraph_element_def first_start_def first_end_def name_def
        get_attribute_def descendants.simps)
  have d1: "detach (detach paired_paragraph (ident first_end)) (ident first_start)
            = [Element 20 ''text:p'' [] [] [Element 25 ''text:span'' [] ''annotated'' []],
               first_end, first_start]"
    by (simp add: detach_def find_element_def paired_paragraph_def paired_paragraph_element_def
        first_start_def first_end_def all_elements_def subtree_def descendants.simps)
  have w2: "distinct (map ident (all_elements detached_paragraph))"
    by (simp add: detached_paragraph_def detached_paragraph_element_def lone_annotation_def
        all_elements_def subtree_def descendants.simps)
  have i2: "lone_annotation \<in> set (all_elements detached_paragraph)"
    by (simp add: detached_paragraph_def detached_paragraph_element_def
        all_elements_def subtree_def descendants.simps)
  have t2: "tag lone_annotation = ''office:annotation''"
    by (simp add: lone_annotation_def)
  have e2: "Annotation_end detached_paragraph lone_annotation = Inr None"
    by (simp add: Annotation_end_def detached_paragraph_parent detached_paragraph_body
        get_annotation_end_def)
       (simp add: detached_paragraph_element_def lone_annotation_def name_def
        get_attribute_def descendants.simps)
  have d2: "detach detached_paragraph (ident lone_annotation)
            = [Element 10 ''text:p'' [] ''before'' [Element 12 ''text:span'' [] ''after'' []],
               lone_annotation]"
    by (simp add: detach_def find_element_def detached_paragraph_def
        detached_paragraph_element_def lone_annotation_def all_elements_def subtree_def
        descendants.simps)
  from Annotation_delete_cascade [OF w1 i1 t1] Annotation_delete_cascade [OF w2 i2 t2] e1 e2 d1 d2 show ?thesis by simp
qed

text \<open>
  C5. The claim: for an annotation and an annotation-end created from it, both attached in
  the same governing scope, \<open>Annotation.end\<close> of the annotation is that end and
  \<open>AnnotationEnd.start\<close> of the end is that annotation. It fails when the scope holds
  another pair of the same name before them: two annotations constructed without a name and
  without a parent both get the name \<open>__Fieldmark__lpod_1\<close>, and the lookup of the second
  one returns the end of the first.
\<close>

theorem partners_not_found_among_same_names:
  "Annotation_init [] 23 ''2018-01-02T00:00:00'' (PyStr ''and me'') (Some ''Bob'') None None None
     = Inr second_start
   \<and> AnnotationEnd_init 24 (Some second_start) None = Inr second_end
   \<and> parent clashing_paragraph (ident second_start) = Some clashing_paragraph_element
   \<and> parent clashing_paragraph (ident second_end) = Some clashing_paragraph_element
   \<and> document_body clashing_paragraph (ident second_start) = None
   \<and> document_body clashing_paragraph (ident second_end) = None
   \<and> \<not> (Annotation_end clashing_paragraph second_start = Inr (Some second_end)
         \<and> AnnotationEnd_start clashing_paragraph second_end = Inr (Some second_start))"
proof -
  have a: "Annotation_init [] 23 ''2018-01-02T00:00:00'' (PyStr ''and me'') (Some ''Bob'') None
             None None = Inr second_start"
    by (simp add: Annotation_init_def Annotation_set_note_body_def set_text_content_def
        truthy_def set_dc_creator_def set_dc_date_def set_attribute_def set_name_def
        get_unique_office_name_def first_unused.simps candidate_1 second_start_def)
  have b: "AnnotationEnd_init 24 (Some second_start) None = Inr second_end"
    by (simp add: AnnotationEnd_init_def second_start_def second_end_def name_def
        get_attribute_def truthy_def set_name_def set_attribute_def)
  have p1: "parent clashing_paragraph (ident second_start) = Some clashing_paragraph_element"
    and p2: "parent clashing_paragraph (ident second_end) = Some clashing_paragraph_element"
    by (simp_all add: parent_def clashing_paragraph_def clashing_paragraph_element_def
        all_elements_def subtree_def first_start_def first_end_def second_start_def
        second_end_def descendants.simps)
  have b1: "document_body clashing_paragraph (ident second_start) = None"
    and b2: "document_body clashing_paragraph (ident second_end) = None"
    by (simp_all add: document_body_def ancestors_def clashing_paragraph_def
        clashing_paragraph_element_def all_elements_def subtree_def first_start_def
        first_end_def second_start_def second_end_def descendants.simps)
  have "Annotation_end clashing_paragraph second_start = Inr (Some first_end)"
    by (simp add: Annotation_end_def p1 b1 get_annotation_end_def)
       (simp add: clashing_paragraph_element_def first_start_def first_end_def
        second_start_def second_end_def name_def get_attribute_def descendants.simps)
  moreover have "first_end \<noteq> second_end"
    by (simp add: first_end_def second_end_def)
  ultimately have "Annotation_end clashing_paragraph second_start \<noteq> Inr (Some second_end)"
    by simp
  with a b p1 p2 b1 b2 show ?thesis by blast
qed

text \<open>
  C5, as amended: for an annotation and an annotation-end created from it, both attached in
  the same governing scope, \<open>Annotation.end\<close> of the annotation is that end when no other
  annotation-end of the same name comes before it among the descendants of the scope, and
  \<open>AnnotationEnd.start\<close> of the end is that annotation when no other annotation of the same
  name comes before it. Each half holds under its own condition alone; both hold when the
  name is used by no other pair of the scope.
\<close>

theorem partners_found_when_first_of_name:
  assumes created: "AnnotationEnd_init fresh (Some start) nm = Inr end_tag"
    and attached_start: "parent f (ident start) = Some ps"
    and attached_end: "parent f (ident end_tag) = Some pe"
    and scope_start: "(case document_body f (ident start) of None \<Rightarrow> ps | Some b \<Rightarrow> b) = scope"
    and scope_end: "(case document_body f (ident end_tag) of None \<Rightarrow> pe | Some b \<Rightarrow> b) = scope"
    and is_annotation: "tag start = ''office:annotation''"
  shows
    "((\<exists>pre post. descendants scope = pre @ end_tag # post
         \<and> (\<forall>x \<in> set pre. \<not> (tag x = ''office:annotation-end'' \<and> name x = name start)))
        \<longrightarrow> Annotation_end f start = Inr (Some end_tag))
     \<and> ((\<exists>pre post. descendants scope = pre @ start # post
         \<and> (\<forall>x \<in> set pre. \<not> (tag x = ''office:annotation'' \<and> name x = name start)))
        \<longrightarrow> AnnotationEnd_start f end_tag = Inr (Some start))"
proof (intro conjI impI)
  from AnnotationEnd_init_Inr [OF created]
  have nm: "name end_tag = name start" and tg: "tag end_tag = ''office:annotation-end''"
    by simp_all
  {
    assume "\<exists>pre post. descendants scope = pre @ end_tag # post
         \<and> (\<forall>x \<in> set pre. \<not> (tag x = ''office:annotation-end'' \<and> name x = name start))"
    then obtain pre post where end_place: "descendants scope = pre @ end_tag # post"
      and end_first:
        "\<forall>x \<in> set pre. \<not> (tag x = ''office:annotation-end'' \<and> name x = name start)"
      by blast
    have "find (\<lambda>e. tag e = ''office:annotation-end'' \<and> name e = name start)
            (pre @ end_tag # post) = Some end_tag"
      using tg nm end_first by (intro find_first) simp_all
    then show "Annotation_end f start = Inr (Some end_tag)"
      using attached_start scope_start end_place
      by (simp add: Annotation_end_def get_annotation_end_def)
  }
  {
    assume "\<exists>pre post. descendants scope = pre @ start # post
         \<and> (\<forall>x \<in> set pre. \<not> (tag x = ''office:annotation'' \<and> name x = name start))"
    then obtain pre post where start_place: "descendants scope = pre @ start # post"
      and start_first:
        "\<forall>x \<in> set pre. \<not> (tag x = ''office:annotation'' \<and> name x = name start)"
      by blast
    have "find (\<lambda>e. tag e = ''office:annotation'' \<and> name e = name start)
            (pre @ start # post) = Some start"
      using is_annotation start_first by (intro find_first) simp_all
    then show "AnnotationEnd_start f end_tag = Inr (Some start)"
      using attached_end scope_end start_place nm
      by (simp add: AnnotationEnd_start_def get_annotation_def)
  }
qed

theorem partners_found_when_first_of_name_witness:
  "AnnotationEnd_init 22 (Some first_start) None = Inr first_end
   \<and> Annotation_end paired_paragraph first_start = Inr (Some first_end)
   \<and> AnnotationEnd_start paired_paragraph first_end = Inr (Some first_start)
   \<and> AnnotationEnd_init 24 (Some second_start) None = Inr second_end
   \<and> Annotation_end overlapping_paragraph second_start = Inr (Some second_end)"
proof -
  have c: "AnnotationEnd_init 22 (Some first_start) None = Inr first_end"
    by (simp add: AnnotationEnd_init_def first_start_def first_end_def name_def
        get_attribute_def truthy_def set_name_def set_attribute_def)
  have p2: "parent paired_paragraph (ident first_end) = Some paired_paragraph_element"
    by (simp add: parent_def paired_paragraph_def paired_paragraph_element_def
        all_elements_def subtree_def first_start_def first_end_def descendants.simps)
  have b2: "document_body paired_paragraph (ident first_end) = None"
    by (simp add: document_body_def ancestors_def paired_paragraph_def
        paired_paragraph_element_def all_elements_def subtree_def first_start_def
        first_end_def descendants.simps)
  have s1: "(case document_body paired_paragraph (ident first_start) of
               None \<Rightarrow> paired_paragraph_element | Some b \<Rightarrow> b) = paired_paragraph_element"
    by (simp add: paired_paragraph_body)
  have s2: "(case document_body paired_paragraph (ident first_end) of
               None \<Rightarrow> paired_paragraph_element | Some b \<Rightarrow> b) = paired_paragraph_element"
    by (simp add: b2)
  have t: "tag first_start = ''office:annotation''"
    by (simp add: first_start_def)
  have d1: "descendants paired_paragraph_element
            = [first_start, Element 25 ''text:span'' [] ''annotated'' []] @ first_end # []"
    by (simp add: paired_paragraph_element_def first_start_def first_end_def descendants.simps)
  have f1: "\<forall>x \<in> set [first_start, Element 25 ''text:span'' [] ''annotated'' []].
              \<not> (tag x = ''office:annotation-end'' \<and> name x = name first_start)"
    by (simp add: first_start_def)
  have d2: "descendants paired_paragraph_element
            = [] @ first_start # [Element 25 ''text:span'' [] ''annotated'' [], first_end]"
    by (simp add: paired_paragraph_element_def first_start_def first_end_def descendants.simps)
  have f2: "\<forall>x \<in> set []. \<not> (tag x = ''office:annotation'' \<and> name x = name first_start)"
    by simp
  from d1 f1 have h1: "\<exists>pre post. descendants paired_paragraph_element = pre @ first_end # post
         \<and> (\<forall>x \<in> set pre. \<not> (tag x = ''office:annotation-end'' \<and> name x = name first_start))"
    by blast
  from d2 f2 have h2: "\<exists>pre post. descendants paired_paragraph_element = pre @ first_start # post
         \<and> (\<forall>x \<in> set pre. \<not> (tag x = ''office:annotation'' \<and> name x = name first_start))"
    by blast
  have c': "AnnotationEnd_init 24 (Some second_start) None = Inr second_end"
    by (simp add: AnnotationEnd_init_def second_start_def second_end_def name_def
        get_attribute_def truthy_def set_name_def set_attribute_def)
  have q1: "parent overlapping_paragraph (ident second_start) = Some overlapping_paragraph_element"
    and q2: "parent overlapping_paragraph (ident second_end) = Some overlapping_paragraph_element"
    by (simp_all add: parent_def overlapping_paragraph_def overlapping_paragraph_element_def
        all_elements_def subtree_def first_start_def second_start_def second_end_def
        descendants.simps)
  have o1: "document_body overlapping_paragraph (ident second_start) = None"
    and o2: "document_body overlapping_paragraph (ident second_end) = None"
    by (simp_all add: document_body_def ancestors_def overlapping_paragraph_def
        overlapping_paragraph_element_def all_elements_def subtree_def first_start_def
        second_start_def second_end_def descendants.simps)
  have r1: "(case document_body overlapping_paragraph (ident second_start) of
               None \<Rightarrow> overlapping_paragraph_element | Some b \<Rightarrow> b)
            = overlapping_paragraph_element"
    by (simp add: o1)
  have r2: "(case document_body overlapping_paragraph (ident second_end) of
               None \<Rightarrow> overlapping_paragraph_element | Some b \<Rightarrow> b)
            = overlapping_paragraph_element"
    by (simp add: o2)
  have t': "tag second_start = ''office:annotation''"
    by (simp add: second_start_def)
  have d3: "descendants overlapping_paragraph_element
            = [first_start, second_start] @ second_end # []"
    by (simp add: overlapping_paragraph_element_def first_start_def second_start_def
        second_end_def descendants.simps)
  have f3: "\<forall>x \<in> set [first_start, second_start].
              \<not> (tag x = ''office:annotation-end'' \<and> name x = name second_start)"
    by (simp add: first_start_def second_start_def)
  from d3 f3 have h3: "\<exists>pre post. descendants overlapping_paragraph_element
           = pre @ second_end # post
         \<and> (\<forall>x \<in> set pre. \<not> (tag x = ''office:annotation-end'' \<and> name x = name second_start))"
    by blast
  from partners_found_when_first_of_name [OF c paired_paragraph_parent p2 s1 s2 t] h1 h2
    partners_found_when_first_of_name [OF c' q1 q2 r1 r2 t'] h3 c c'
  show ?thesis by blast
qed

end
